theory Spec2Isabelle
  imports Main "HOL-Library.List_Lexorder" "HOL-Library.Char_ord"
begin

section \<open>JavaScript strings\<close>

text \<open>
  A JavaScript string is a sequence of UTF-16 code units. The model uses \<open>string\<close>
  (a list of 8-bit characters), so it covers the templates whose code units are below 256;
  \<open>of_char\<close> is \<open>charCodeAt\<close>. Positions and lengths are natural numbers; the result of
  \<open>indexOf\<close> is an integer because the source tests it against \<open>-1\<close>.
\<close>

text \<open>\<open>String.prototype.substring(a, b)\<close>: both arguments are clamped to the length and
  swapped when \<open>a > b\<close>.\<close>

definition substring :: "string \<Rightarrow> nat \<Rightarrow> nat \<Rightarrow> string" where
  "substring s a b =
     (let a' = min a (length s); b' = min b (length s)
      in take (max a' b' - min a' b') (drop (min a' b') s))"

text \<open>\<open>substring(a)\<close> with one argument.\<close>

definition substringFrom :: "string \<Rightarrow> nat \<Rightarrow> string" where
  "substringFrom s a = drop a s"

fun startsWith :: "string \<Rightarrow> string \<Rightarrow> bool" where
  "startsWith s [] = True"
| "startsWith [] (c # cs) = False"
| "startsWith (x # xs) (c # cs) = (x = c \<and> startsWith xs cs)"

text \<open>The first position at which \<open>pat\<close> occurs in \<open>s\<close>.\<close>

fun firstIndex :: "string \<Rightarrow> string \<Rightarrow> nat option" where
  "firstIndex pat [] = (if pat = [] then Some 0 else None)"
| "firstIndex pat (c # cs) =
     (if startsWith (c # cs) pat then Some 0 else map_option Suc (firstIndex pat cs))"

text \<open>\<open>s.indexOf(pat, from)\<close>: the first position at or after \<open>from\<close>, or \<open>-1\<close>.\<close>

definition indexOf :: "string \<Rightarrow> string \<Rightarrow> nat \<Rightarrow> int" where
  "indexOf s pat from =
     (let from' = min from (length s)
      in case firstIndex pat (drop from' s) of
           None \<Rightarrow> - 1
         | Some k \<Rightarrow> int (from' + k))"

text \<open>\<open>String.prototype.trim\<close> removes white space and line terminators at both ends; among
  the code units below 256 these are 9 to 13, 32 and 160.\<close>

definition isTrimSpace :: "char \<Rightarrow> bool" where
  "isTrimSpace c = (let n = (of_char c :: nat) in (9 \<le> n \<and> n \<le> 13) \<or> n = 32 \<or> n = 160)"

definition trim :: "string \<Rightarrow> string" where
  "trim s = rev (dropWhile isTrimSpace (rev (dropWhile isTrimSpace s)))"

text \<open>Decimal rendering of a non-negative integer, as \<open>"..." + p0\<close> produces it.\<close>

definition digitChar :: "nat \<Rightarrow> char" where
  "digitChar d = char_of (48 + d)"

fun showNat :: "nat \<Rightarrow> string" where
  "showNat n = (if n < 10 then [digitChar n] else showNat (n div 10) @ [digitChar (n mod 10)])"

declare showNat.simps [simp del]

text \<open>\<open>Array.prototype.join\<close> on an array of strings.\<close>

fun join :: "string \<Rightarrow> string list \<Rightarrow> string" where
  "join sep [] = []"
| "join sep [x] = x"
| "join sep (x # y # ys) = x @ sep @ join sep (y # ys)"

subsection \<open>General utility routines of the parser\<close>

text \<open>\<open>charCodeAt(p) <= 32\<close>; outside the string \<open>charCodeAt\<close> is \<open>NaN\<close> and the
  comparison is false.\<close>

definition isWhiteSpaceAt :: "string \<Rightarrow> nat \<Rightarrow> bool" where
  "isWhiteSpaceAt s p = (p < length s \<and> (of_char (s ! p) :: nat) \<le> 32)"

function skipBlanks :: "string \<Rightarrow> nat \<Rightarrow> nat" where
  "skipBlanks s p = (if p < length s \<and> isWhiteSpaceAt s p then skipBlanks s (p + 1) else p)"
  by pat_completeness auto
termination
  by (relation "measure (\<lambda>(s, p). length s - p)") auto

declare skipBlanks.simps [simp del]

function skipNonBlanks :: "string \<Rightarrow> nat \<Rightarrow> nat" where
  "skipNonBlanks s p = (if p < length s \<and> \<not> isWhiteSpaceAt s p then skipNonBlanks s (p + 1) else p)"
  by pat_completeness auto
termination
  by (relation "measure (\<lambda>(s, p). length s - p)") auto

declare skipNonBlanks.simps [simp del]

definition isRestOfStringBlank :: "string \<Rightarrow> nat \<Rightarrow> bool" where
  "isRestOfStringBlank s p = (skipBlanks s p \<ge> length s)"

definition isStringBlank :: "string \<Rightarrow> bool" where
  "isStringBlank s = isRestOfStringBlank s 0"

section \<open>Errors\<close>

text \<open>
  Every exception the source can raise is a value. \<open>TemplateSyntaxError\<close>,
  \<open>VariableNotDefinedError\<close> and \<open>BlockNotDefinedError\<close> are the three error classes of the
  source and carry their message; \<open>Error\<close> is a plain \<open>new Error(msg)\<close>; \<open>TypeError\<close> is what
  the JavaScript runtime raises when a property of \<open>undefined\<close> is read or written;
  \<open>LoadError\<close> stands for a rejected promise of the template loader.
\<close>

datatype error =
    TemplateSyntaxError string
  | Error string
  | TypeError
  | LoadError string
  | VariableNotDefinedError string
  | BlockNotDefinedError string

definition dq :: char where
  "dq = CHR 0x22"

definition templateSyntaxError :: "string \<Rightarrow> error" where
  "templateSyntaxError msg = TemplateSyntaxError (''Syntax error in template: '' @ msg)"

definition variableNotDefinedError :: "string \<Rightarrow> error" where
  "variableNotDefinedError varName =
     VariableNotDefinedError (''Variable '' @ [dq] @ varName @ [dq] @ '' not used in template.'')"

definition blockNotDefinedError :: "string \<Rightarrow> error" where
  "blockNotDefinedError blockName =
     BlockNotDefinedError (''Block '' @ [dq] @ blockName @ [dq] @ '' not defined in template.'')"

text \<open>\<open>assert(cond)\<close> of Utils.ts.\<close>

definition assertionFailed :: error where
  "assertionFailed = Error ''Assertion failed.''"

section \<open>The parsed template\<close>

definition maxNestingLevel :: int where
  "maxNestingLevel = 30"

definition maxCondLevels :: int where
  "maxCondLevels = 30"

definition maxInclTemplateSize :: nat where
  "maxInclTemplateSize = 1000000"

definition cmdStartStr :: string where
  "cmdStartStr = ''<!--''"

definition cmdEndStr :: string where
  "cmdEndStr = ''-->''"

definition cmdStartStrShort :: string where
  "cmdStartStrShort = ''<$''"

definition cmdEndStrShort :: string where
  "cmdEndStrShort = ''>''"

text \<open>
  The fields \<open>tPosBegin\<close>, \<open>tPosEnd\<close> and \<open>blockNo\<close> of the variable reference record are
  called \<open>vrTPosBegin\<close>, \<open>vrTPosEnd\<close> and \<open>vrBlockNo\<close>, because the block records have fields of
  the same names. Numbers that can be \<open>-1\<close> are integers. A field that the source leaves
  \<open>undefined\<close> until a later pass assigns it (\<open>vrBlockNo\<close>, \<open>blockVarNo\<close>, the positions of a
  block) starts as \<open>-1\<close> respectively \<open>0\<close>; the source never reads it before the assignment.
\<close>

record VarRefTabRec =
  varNo :: nat
  vrTPosBegin :: nat
  vrTPosEnd :: nat
  vrBlockNo :: int
  blockVarNo :: int

record BlockTabRec =
  blockName :: "string option"
  nextWithSameName :: int
  tPosBegin :: nat
  tPosContentsBegin :: nat
  tPosContentsEnd :: nat
  tPosEnd :: nat
  nestingLevel :: int
  parentBlockNo :: int
  definitionIsOpen :: bool
  blockVarNoToVarNoMap :: "nat list"
  firstVarRefNo :: int
  dummy :: bool

text \<open>
  The two lookup functions of a parsed template are closures over the parser's two maps;
  the record carries the maps.
\<close>

record ParsedTemplate =
  templateText :: string
  varTab :: "string list"
  varRefTab :: "VarRefTabRec list"
  blockTab :: "BlockTabRec list"
  varNameToNoMap :: "string \<rightharpoonup> nat"
  blockNameToNoMap :: "string \<rightharpoonup> nat"

definition lookupVariableName :: "'a ParsedTemplate_scheme \<Rightarrow> string \<Rightarrow> int" where
  "lookupVariableName t name =
     (case varNameToNoMap t name of None \<Rightarrow> - 1 | Some n \<Rightarrow> int n)"

definition lookupBlockName :: "'a ParsedTemplate_scheme \<Rightarrow> string \<Rightarrow> int" where
  "lookupBlockName t name =
     (case blockNameToNoMap t name of None \<Rightarrow> - 1 | Some n \<Rightarrow> int n)"

section \<open>The parser\<close>

text \<open>
  The condition variables are used only by \<open>evaluateCondition\<close>, which hands them and the
  expression to the JavaScript \<open>Function\<close> constructor. The parameter record carries the
  resulting evaluation: \<open>Inr b\<close> when the expression evaluates to a value whose \<open>Boolean\<close> is
  \<open>b\<close>, \<open>Inl e\<close> when compiling or running it throws \<open>e\<close> (rendered as text). The loader returns
  \<open>None\<close> when its promise is rejected.
\<close>

record ParserParms =
  mainTemplateName :: string
  conditionEval :: "string \<Rightarrow> string + bool"
  shortFormEnabled :: bool
  loadTemplateFile :: "string \<Rightarrow> string option"

text \<open>The parser object: the tables of the parsed template and the temporary variables.\<close>

record Parser = ParsedTemplate +
  currentNestingLevel :: int
  openBlocksTab :: "int list"
  condLevel :: int
  condEnabled :: "bool list"
  condPassed :: "bool list"
  resumeCmdParsingFromStart :: bool

subsection \<open>Arrays of the parser\<close>

text \<open>
  \<open>condEnabled\<close> and \<open>condPassed\<close> are JavaScript arrays of booleans. Reading outside the
  array gives \<open>undefined\<close>, which every use treats as false; writing behind the end extends
  the array (the holes read as \<open>undefined\<close>).
\<close>

definition arrayGet :: "bool list \<Rightarrow> int \<Rightarrow> bool" where
  "arrayGet xs i = (0 \<le> i \<and> nat i < length xs \<and> xs ! nat i)"

definition arraySet :: "bool list \<Rightarrow> int \<Rightarrow> bool \<Rightarrow> bool list" where
  "arraySet xs i v =
     (if i < 0 then xs
      else if nat i < length xs then xs[nat i := v]
      else xs @ replicate (nat i - length xs) False @ [v])"

text \<open>
  \<open>openBlocksTab\<close> is an \<open>Int16Array\<close>: a stored number is wrapped to 16 bits (two's
  complement), a write outside the array is ignored and a read outside the array is
  \<open>undefined\<close>. The only reader stores the value in \<open>parentBlockNo\<close>, whose uses treat
  \<open>undefined\<close> like any number that is neither \<open>-1\<close> nor the number of a block; the model
  writes \<open>-2\<close> for it.
\<close>

definition toInt16 :: "int \<Rightarrow> int" where
  "toInt16 n = (n + 32768) mod 65536 - 32768"

definition int16Set :: "int list \<Rightarrow> int \<Rightarrow> int \<Rightarrow> int list" where
  "int16Set xs i v = (if 0 \<le> i \<and> nat i < length xs then xs[nat i := toInt16 v] else xs)"

definition int16Get :: "int list \<Rightarrow> int \<Rightarrow> int" where
  "int16Get xs i = (if 0 \<le> i \<and> nat i < length xs then xs ! nat i else - 2)"

subsection \<open>Blocks\<close>

definition registerBlock :: "string option \<Rightarrow> Parser \<Rightarrow> nat \<times> Parser" where
  "registerBlock name s =
     (let blockNo = length (blockTab s);
          btr = \<lparr> blockName = name,
                  nextWithSameName = (case name of Some n \<Rightarrow> lookupBlockName s n | None \<Rightarrow> - 1),
                  tPosBegin = 0, tPosContentsBegin = 0, tPosContentsEnd = 0, tPosEnd = 0,
                  nestingLevel = currentNestingLevel s,
                  parentBlockNo =
                    (if currentNestingLevel s > 0
                     then int16Get (openBlocksTab s) (currentNestingLevel s - 1) else - 1),
                  definitionIsOpen = True,
                  blockVarNoToVarNoMap = [],
                  firstVarRefNo = - 1,
                  dummy = False \<rparr>
      in (blockNo,
          s\<lparr> blockNameToNoMap :=
                (case name of Some n \<Rightarrow> (blockNameToNoMap s)(n \<mapsto> blockNo)
                 | None \<Rightarrow> blockNameToNoMap s),
             blockTab := blockTab s @ [btr] \<rparr>))"

text \<open>\<open>btr = this.blockTab[blockNo]\<close> followed by assignments to fields of \<open>btr\<close>, for a
  \<open>blockNo\<close> that is in the table by construction.\<close>

definition modifyBlock :: "nat \<Rightarrow> (BlockTabRec \<Rightarrow> BlockTabRec) \<Rightarrow> Parser \<Rightarrow> Parser" where
  "modifyBlock blockNo f s = s\<lparr> blockTab := (blockTab s)[blockNo := f (blockTab s ! blockNo)] \<rparr>"

definition beginMainBlock :: "Parser \<Rightarrow> Parser" where
  "beginMainBlock s =
     (let (blockNo, s1) = registerBlock None s;
          s2 = modifyBlock blockNo (\<lambda>btr. btr\<lparr> tPosBegin := 0, tPosContentsBegin := 0 \<rparr>) s1
      in s2\<lparr> openBlocksTab := int16Set (openBlocksTab s2) (currentNestingLevel s2) (int blockNo),
             currentNestingLevel := currentNestingLevel s2 + 1 \<rparr>)"

definition endMainBlock :: "Parser \<Rightarrow> error + Parser" where
  "endMainBlock s =
     (if blockTab s = [] then Inl TypeError
      else Inr ((modifyBlock 0
                  (\<lambda>btr. btr\<lparr> tPosContentsEnd := length (templateText s),
                              tPosEnd := length (templateText s),
                              definitionIsOpen := False \<rparr>) s)
                \<lparr> currentNestingLevel := currentNestingLevel s - 1 \<rparr>))"

definition excludeTemplateRange :: "nat \<Rightarrow> nat \<Rightarrow> Parser \<Rightarrow> Parser" where
  "excludeTemplateRange tPosBegin' tPosEnd' s =
     (if blockTab s \<noteq> [] \<and> dummy (last (blockTab s)) \<and> tPosEnd (last (blockTab s)) = tPosBegin'
      then modifyBlock (length (blockTab s) - 1)
             (\<lambda>btr. btr\<lparr> tPosContentsEnd := tPosEnd', tPosEnd := tPosEnd' \<rparr>) s
      else let (blockNo, s1) = registerBlock None s
           in modifyBlock blockNo
                (\<lambda>btr. btr\<lparr> tPosBegin := tPosBegin', tPosContentsBegin := tPosBegin',
                            tPosContentsEnd := tPosEnd', tPosEnd := tPosEnd',
                            definitionIsOpen := False, dummy := True \<rparr>) s1)"

subsection \<open>Conditional commands\<close>

definition isCondEnabled :: "Parser \<Rightarrow> int \<Rightarrow> bool" where
  "isCondEnabled s condLevel2 = (if condLevel2 < 0 then True else arrayGet (condEnabled s) condLevel2)"

definition conditionalExclude :: "nat \<Rightarrow> nat \<Rightarrow> Parser \<Rightarrow> bool \<times> Parser" where
  "conditionalExclude tPosBegin' tPosEnd' s =
     (if isCondEnabled s (condLevel s) then (False, s)
      else (True, excludeTemplateRange tPosBegin' tPosEnd' s))"

definition evaluateCondition :: "ParserParms \<Rightarrow> string \<Rightarrow> error + bool" where
  "evaluateCondition pp condExpr =
     (case conditionEval pp condExpr of
        Inr r \<Rightarrow> Inr r
      | Inl e \<Rightarrow> Inl (templateSyntaxError
                 (''Invalid condition expression '' @ [dq] @ condExpr @ [dq] @ ''. '' @ e)))"

text \<open>\<open>a && b\<close> evaluates \<open>b\<close> only when \<open>a\<close> is true, so a disabled context never evaluates
  the expression.\<close>

definition processIfCmd :: "ParserParms \<Rightarrow> string \<Rightarrow> nat \<Rightarrow> nat \<Rightarrow> Parser \<Rightarrow> error + Parser" where
  "processIfCmd pp parms cmdTPosBegin cmdTPosEnd s =
     (let s1 = excludeTemplateRange cmdTPosBegin cmdTPosEnd s
      in if condLevel s1 \<ge> maxCondLevels - 1
         then Inl (templateSyntaxError ''Too many nested $if commands.'')
         else let s2 = s1\<lparr> condLevel := condLevel s1 + 1 \<rparr>
              in case (if isCondEnabled s2 (condLevel s2 - 1) then evaluateCondition pp parms
                       else Inr False) of
                   Inl e \<Rightarrow> Inl e
                 | Inr enabled \<Rightarrow>
                     Inr (s2\<lparr> condEnabled := arraySet (condEnabled s2) (condLevel s2) enabled,
                              condPassed := arraySet (condPassed s2) (condLevel s2) enabled \<rparr>))"

definition processElseIfCmd :: "ParserParms \<Rightarrow> string \<Rightarrow> nat \<Rightarrow> nat \<Rightarrow> Parser \<Rightarrow> error + Parser" where
  "processElseIfCmd pp parms cmdTPosBegin cmdTPosEnd s =
     (let s1 = excludeTemplateRange cmdTPosBegin cmdTPosEnd s
      in if condLevel s1 < 0
         then Inl (templateSyntaxError ''$elseIf without matching $if.'')
         else case (if isCondEnabled s1 (condLevel s1 - 1)
                       \<and> \<not> arrayGet (condPassed s1) (condLevel s1)
                    then evaluateCondition pp parms else Inr False) of
                Inl e \<Rightarrow> Inl e
              | Inr enabled \<Rightarrow>
                  (let s2 = s1\<lparr> condEnabled := arraySet (condEnabled s1) (condLevel s1) enabled \<rparr>
                   in Inr (if enabled
                           then s2\<lparr> condPassed := arraySet (condPassed s2) (condLevel s2) True \<rparr>
                           else s2)))"

definition processElseCmd :: "string \<Rightarrow> nat \<Rightarrow> nat \<Rightarrow> Parser \<Rightarrow> error + Parser" where
  "processElseCmd parms cmdTPosBegin cmdTPosEnd s =
     (let s1 = excludeTemplateRange cmdTPosBegin cmdTPosEnd s
      in if \<not> isStringBlank parms
         then Inl (templateSyntaxError ''Invalid parameters for $else command.'')
         else if condLevel s1 < 0
         then Inl (templateSyntaxError ''$else without matching $if.'')
         else let enabled = (isCondEnabled s1 (condLevel s1 - 1)
                              \<and> \<not> arrayGet (condPassed s1) (condLevel s1));
                  s2 = s1\<lparr> condEnabled := arraySet (condEnabled s1) (condLevel s1) enabled \<rparr>
              in Inr (if enabled
                      then s2\<lparr> condPassed := arraySet (condPassed s2) (condLevel s2) True \<rparr>
                      else s2))"

definition processEndIfCmd :: "string \<Rightarrow> nat \<Rightarrow> nat \<Rightarrow> Parser \<Rightarrow> error + Parser" where
  "processEndIfCmd parms cmdTPosBegin cmdTPosEnd s =
     (let s1 = excludeTemplateRange cmdTPosBegin cmdTPosEnd s
      in if \<not> isStringBlank parms
         then Inl (templateSyntaxError ''Invalid parameters for $endIf command.'')
         else if condLevel s1 < 0
         then Inl (templateSyntaxError ''$endif without matching $if.'')
         else Inr (s1\<lparr> condLevel := condLevel s1 - 1 \<rparr>))"

subsection \<open>Block commands\<close>

definition atOffset :: "string \<Rightarrow> nat \<Rightarrow> string" where
  "atOffset msg tPos = msg @ '' in template at offset '' @ showNat tPos @ ''.''"

definition quoted :: "string \<Rightarrow> string" where
  "quoted name = [dq] @ name @ [dq]"

definition processBeginBlockCmd :: "string \<Rightarrow> nat \<Rightarrow> nat \<Rightarrow> Parser \<Rightarrow> error + Parser" where
  "processBeginBlockCmd parms cmdTPosBegin cmdTPosEnd s =
     (let (excluded, s1) = conditionalExclude cmdTPosBegin cmdTPosEnd s
      in if excluded then Inr s1
         else let p0 = skipBlanks parms 0
         in if p0 \<ge> length parms
            then Inl (templateSyntaxError
                   (atOffset ''Missing block name in $beginBlock command'' cmdTPosBegin))
            else let p = skipNonBlanks parms p0;
                     name = substring parms p0 p
            in if \<not> isRestOfStringBlank parms p
               then Inl (templateSyntaxError
                      (atOffset ''Extra parameter in $beginBlock command'' cmdTPosBegin))
               else let (bNo, s2) = registerBlock (Some name) s1;
                        s3 = modifyBlock bNo
                               (\<lambda>btr. btr\<lparr> tPosBegin := cmdTPosBegin,
                                           tPosContentsBegin := cmdTPosEnd \<rparr>) s2;
                        s4 = s3\<lparr> openBlocksTab :=
                                   int16Set (openBlocksTab s3) (currentNestingLevel s3) (int bNo),
                                 currentNestingLevel := currentNestingLevel s3 + 1 \<rparr>
               in if currentNestingLevel s4 > maxNestingLevel
                  then Inl (templateSyntaxError
                         (atOffset (''Block nesting overflow for block '' @ quoted name) cmdTPosBegin))
                  else Inr s4)"

definition processEndBlockCmd :: "string \<Rightarrow> nat \<Rightarrow> nat \<Rightarrow> Parser \<Rightarrow> error + Parser" where
  "processEndBlockCmd parms cmdTPosBegin cmdTPosEnd s =
     (let (excluded, s1) = conditionalExclude cmdTPosBegin cmdTPosEnd s
      in if excluded then Inr s1
         else let p0 = skipBlanks parms 0
         in if p0 \<ge> length parms
            then Inl (templateSyntaxError
                   (atOffset ''Missing block name in $endBlock command'' cmdTPosBegin))
            else let p = skipNonBlanks parms p0;
                     name = substring parms p0 p
            in if \<not> isRestOfStringBlank parms p
               then Inl (templateSyntaxError
                      (atOffset ''Extra parameter in $endBlock command'' cmdTPosBegin))
               else let bNo = lookupBlockName s1 name
               in if bNo = - 1
                  then Inl (templateSyntaxError
                         (atOffset (''Undefined block name '' @ quoted name @ '' in $endBlock command'')
                            cmdTPosBegin))
                  else let s2 = s1\<lparr> currentNestingLevel := currentNestingLevel s1 - 1 \<rparr>
                  in if \<not> nat bNo < length (blockTab s2) then Inl TypeError
                     else let btr = blockTab s2 ! nat bNo
                     in if \<not> definitionIsOpen btr
                        then Inl (templateSyntaxError
                               (atOffset (''Multiple $endBlock commands for block '' @ quoted name)
                                  cmdTPosBegin))
                        else if nestingLevel btr \<noteq> currentNestingLevel s2
                        then Inl (templateSyntaxError
                               (atOffset (''Block nesting level mismatch at $endBlock command for block ''
                                            @ quoted name) cmdTPosBegin))
                        else Inr (modifyBlock (nat bNo)
                                    (\<lambda>btr. btr\<lparr> tPosContentsEnd := cmdTPosBegin,
                                                tPosEnd := cmdTPosEnd,
                                                definitionIsOpen := False \<rparr>) s2))"

text \<open>The loop of \<open>checkBlockDefinitionsComplete\<close> throws at the first open definition;
  an absent name is rendered as \<open>undefined\<close>.\<close>

definition checkBlockDefinitionsComplete :: "Parser \<Rightarrow> error + Parser" where
  "checkBlockDefinitionsComplete s =
     (case find definitionIsOpen (blockTab s) of
        Some btr \<Rightarrow>
          Inl (templateSyntaxError
                 (''Missing $endBlock command in template for block ''
                  @ quoted (case blockName btr of Some n \<Rightarrow> n | None \<Rightarrow> ''undefined'') @ ''.''))
      | None \<Rightarrow>
          if currentNestingLevel s \<noteq> 0
          then Inl (templateSyntaxError ''Block nesting level error at end of template.'')
          else Inr s)"

subsection \<open>Inclusion\<close>

definition insertSubTemplate ::
  "ParserParms \<Rightarrow> string \<Rightarrow> nat \<Rightarrow> nat \<Rightarrow> Parser \<Rightarrow> error + Parser" where
  "insertSubTemplate pp subTemplateName tPos1 tPos2 s =
     (case loadTemplateFile pp subTemplateName of
        None \<Rightarrow> Inl (LoadError subTemplateName)
      | Some subTemplateText \<Rightarrow>
          if length (templateText s) + length subTemplateText > maxInclTemplateSize
          then Inl (Error (''Subtemplate include aborted because the internal template string would become longer than ''
                           @ showNat maxInclTemplateSize @ '' characters.''))
          else Inr (s\<lparr> templateText :=
                          substring (templateText s) 0 tPos1 @ subTemplateText
                          @ substringFrom (templateText s) tPos2,
                        resumeCmdParsingFromStart := True \<rparr>))"

definition processIncludeCmd ::
  "ParserParms \<Rightarrow> string \<Rightarrow> nat \<Rightarrow> nat \<Rightarrow> Parser \<Rightarrow> error + Parser" where
  "processIncludeCmd pp parms cmdTPosBegin cmdTPosEnd s =
     (let (excluded, s1) = conditionalExclude cmdTPosBegin cmdTPosEnd s
      in if excluded then Inr s1
         else let p0 = skipBlanks parms 0
         in if p0 \<ge> length parms
            then Inl (templateSyntaxError
                   (atOffset ''Missing subtemplate name in $include command'' cmdTPosBegin))
            else if parms ! p0 = dq
            then (let p = indexOf parms [dq] (p0 + 1)
                  in if p = - 1
                     then Inl (templateSyntaxError
                            (atOffset ''Missing closing quote for subtemplate name in $include command''
                               cmdTPosBegin))
                     else if \<not> isRestOfStringBlank parms (nat p + 1)
                     then Inl (templateSyntaxError
                            (atOffset ''Extra parameter in $include command'' cmdTPosBegin))
                     else insertSubTemplate pp (substring parms (p0 + 1) (nat p))
                            cmdTPosBegin cmdTPosEnd s1)
            else (let p = skipNonBlanks parms p0
                  in if \<not> isRestOfStringBlank parms (p + 1)
                     then Inl (templateSyntaxError
                            (atOffset ''Extra parameter in $include command'' cmdTPosBegin))
                     else insertSubTemplate pp (substring parms p0 p)
                            cmdTPosBegin cmdTPosEnd s1))"

subsection \<open>Template commands\<close>

definition recognized :: "error + Parser \<Rightarrow> error + bool \<times> Parser" where
  "recognized r = (case r of Inl e \<Rightarrow> Inl e | Inr s \<Rightarrow> Inr (True, s))"

text \<open>The result \<open>False\<close> means that the command is to be treated as normal template text.\<close>

definition processTemplateCommand ::
  "ParserParms \<Rightarrow> string \<Rightarrow> nat \<Rightarrow> nat \<Rightarrow> Parser \<Rightarrow> error + bool \<times> Parser" where
  "processTemplateCommand pp cmdLine cmdTPosBegin cmdTPosEnd s =
     (let p0 = skipBlanks cmdLine 0
      in if p0 \<ge> length cmdLine then Inr (False, s)
         else let p = skipNonBlanks cmdLine p0;
                  cmd = substring cmdLine p0 p;
                  parms = substringFrom cmdLine p
         in if cmd = ''$beginBlock''
            then recognized (processBeginBlockCmd parms cmdTPosBegin cmdTPosEnd s)
            else if cmd = ''$endBlock''
            then recognized (processEndBlockCmd parms cmdTPosBegin cmdTPosEnd s)
            else if cmd = ''$include''
            then recognized (processIncludeCmd pp parms cmdTPosBegin cmdTPosEnd s)
            else if cmd = ''$if''
            then recognized (processIfCmd pp parms cmdTPosBegin cmdTPosEnd s)
            else if cmd = ''$elseIf''
            then recognized (processElseIfCmd pp parms cmdTPosBegin cmdTPosEnd s)
            else if cmd = ''$else''
            then recognized (processElseCmd parms cmdTPosBegin cmdTPosEnd s)
            else if cmd = ''$endIf''
            then recognized (processEndIfCmd parms cmdTPosBegin cmdTPosEnd s)
            else if startsWith cmd ''$'' \<and> \<not> startsWith cmd ''${''
            then Inl (templateSyntaxError
                   (atOffset (''Unknown command '' @ quoted cmd) cmdTPosBegin))
            else Inr (False, s))"

definition processShortFormTemplateCommand ::
  "ParserParms \<Rightarrow> string \<Rightarrow> nat \<Rightarrow> nat \<Rightarrow> Parser \<Rightarrow> error + bool \<times> Parser" where
  "processShortFormTemplateCommand pp cmdLine cmdTPosBegin cmdTPosEnd s =
     (let p0 = skipBlanks cmdLine 0
      in if p0 \<ge> length cmdLine then Inr (False, s)
         else let cmd1 = cmdLine ! p0;
                  p1 = p0 + 1;
                  p = (if cmd1 = CHR ''/'' \<and> p1 < length cmdLine \<and> \<not> isWhiteSpaceAt cmdLine p1
                       then p1 + 1 else p1);
                  cmd = substring cmdLine p0 p;
                  parms = trim (substringFrom cmdLine p)
         in if cmd = ''?''
            then recognized (processIfCmd pp parms cmdTPosBegin cmdTPosEnd s)
            else if cmd = '':''
            then (if length parms > 0
                  then recognized (processElseIfCmd pp parms cmdTPosBegin cmdTPosEnd s)
                  else recognized (processElseCmd parms cmdTPosBegin cmdTPosEnd s))
            else if cmd = ''/?''
            then recognized (processEndIfCmd parms cmdTPosBegin cmdTPosEnd s)
            else Inr (False, s))"

text \<open>
  One pass through the body of the loop of \<open>parseTemplateCommands\<close>, from position \<open>p\<close>:
  \<open>Break\<close> when no command is left, \<open>Continue\<close> with the position at which the next pass
  starts.
\<close>

datatype cmdStep = Break Parser | Continue nat Parser

definition parseTemplateCommandsStep :: "ParserParms \<Rightarrow> nat \<Rightarrow> Parser \<Rightarrow> error + cmdStep" where
  "parseTemplateCommandsStep pp p s =
     (let text = templateText s;
          p0a = indexOf text cmdStartStr p;
          (p0, shortForm) =
            (if shortFormEnabled pp \<and> p0a \<noteq> int p
             then (if p0a = - 1 then (indexOf text cmdStartStrShort p, True)
                   else (let p2 = indexOf (substring text p (nat p0a)) cmdStartStrShort 0
                         in if p2 \<noteq> - 1 then (int p + p2, True) else (p0a, False)))
             else (p0a, False))
      in if p0 = - 1 then Inr (Break s)
         else let s1 = snd (conditionalExclude p (nat p0) s)
         in if shortForm
            then (let pe = indexOf text cmdEndStrShort (nat p0 + length cmdStartStrShort)
                  in if pe = - 1
                     then (let p' = nat p0 + length cmdStartStrShort
                           in Inr (Continue p' (snd (conditionalExclude (nat p0) p' s1))))
                     else let p' = nat pe + length cmdEndStrShort;
                              cmdLine = substring text (nat p0 + length cmdStartStrShort)
                                          (p' - length cmdEndStrShort)
                     in case processShortFormTemplateCommand pp cmdLine (nat p0) p' s1 of
                          Inl e \<Rightarrow> Inl e
                        | Inr (ok, s2) \<Rightarrow>
                            Inr (Continue p'
                                   (if \<not> ok then snd (conditionalExclude (nat p0) p' s2) else s2)))
            else (let pe = indexOf text cmdEndStr (nat p0 + length cmdStartStr)
                  in if pe = - 1
                     then Inl (templateSyntaxError
                            (''Invalid HTML comment in template at offset '' @ showNat (nat p0) @ ''.''))
                     else let p' = nat pe + length cmdEndStr;
                              cmdLine = substring text (nat p0 + length cmdStartStr)
                                          (p' - length cmdEndStr);
                              s2 = s1\<lparr> resumeCmdParsingFromStart := False \<rparr>
                     in case processTemplateCommand pp cmdLine (nat p0) p' s2 of
                          Inl e \<Rightarrow> Inl e
                        | Inr (ok, s3) \<Rightarrow>
                            (let s4 = (if \<not> ok then snd (conditionalExclude (nat p0) p' s3) else s3)
                             in Inr (Continue (if resumeCmdParsingFromStart s4 then nat p0 else p')
                                       s4))))"

text \<open>
  The loop itself. A template that includes itself makes the source loop forever, so the
  loop takes fuel: one unit for each pass, \<open>None\<close> when it runs out.
\<close>

fun parseTemplateCommands ::
  "ParserParms \<Rightarrow> nat \<Rightarrow> nat \<Rightarrow> Parser \<Rightarrow> (error + Parser) option" where
  "parseTemplateCommands pp 0 p s = None"
| "parseTemplateCommands pp (Suc fuel) p s =
     (case parseTemplateCommandsStep pp p s of
        Inl e \<Rightarrow> Some (Inl e)
      | Inr (Break s') \<Rightarrow> Some (Inr s')
      | Inr (Continue p' s') \<Rightarrow> parseTemplateCommands pp fuel p' s')"

subsection \<open>Template variables\<close>

definition registerVariable :: "string \<Rightarrow> Parser \<Rightarrow> nat \<times> Parser" where
  "registerVariable varName s =
     (let n = length (varTab s)
      in (n, s\<lparr> varTab := varTab s @ [varName],
                 varNameToNoMap := (varNameToNoMap s)(varName \<mapsto> n) \<rparr>))"

definition registerVariableReference :: "string \<Rightarrow> nat \<Rightarrow> nat \<Rightarrow> Parser \<Rightarrow> Parser" where
  "registerVariableReference varName tPosBegin' tPosEnd' s =
     (let (n, s1) = (if lookupVariableName s varName = - 1 then registerVariable varName s
                     else (nat (lookupVariableName s varName), s))
      in s1\<lparr> varRefTab := varRefTab s1 @
                 [\<lparr> varNo = n, vrTPosBegin = tPosBegin', vrTPosEnd = tPosEnd',
                    vrBlockNo = - 1, blockVarNo = - 1 \<rparr>] \<rparr>)"

text \<open>The loop of \<open>parseTemplateVariables\<close>, from position \<open>p\<close>; one unit of fuel for each
  pass.\<close>

fun parseTemplateVariables :: "nat \<Rightarrow> nat \<Rightarrow> Parser \<Rightarrow> (error + Parser) option" where
  "parseTemplateVariables 0 p s = None"
| "parseTemplateVariables (Suc fuel) p s =
     (let p0 = indexOf (templateText s) ''${'' p
      in if p0 = - 1 then Some (Inr s)
         else let p1 = indexOf (templateText s) ''}'' (nat p0)
         in if p1 = - 1
            then Some (Inl (templateSyntaxError
                   (''Invalid variable reference in template at offset '' @ showNat (nat p0) @ ''.'')))
            else let p' = nat p1 + 1;
                     varName = trim (substring (templateText s) (nat p0 + 2) (p' - 1))
            in if length varName = 0
               then Some (Inl (templateSyntaxError
                      (''Empty variable name in template at offset '' @ showNat (nat p0) @ ''.'')))
               else parseTemplateVariables fuel p'
                      (registerVariableReference varName (nat p0) p' s))"

text \<open>
  The loop of \<open>associateVariablesWithBlocks\<close> with its three counters. Reading a field of
  \<open>blockTab[activeBlockNo]\<close> raises a \<open>TypeError\<close> when \<open>activeBlockNo\<close> is not the number of
  a block.
\<close>

fun associateLoop :: "nat \<Rightarrow> nat \<Rightarrow> int \<Rightarrow> nat \<Rightarrow> Parser \<Rightarrow> (error + Parser) option" where
  "associateLoop 0 varRefNo activeBlockNo nextBlockNo s = None"
| "associateLoop (Suc fuel) varRefNo activeBlockNo nextBlockNo s =
     (if \<not> varRefNo < length (varRefTab s) then Some (Inr s)
      else let vrtr = varRefTab s ! varRefNo;
               varRefTPos = vrTPosBegin vrtr
      in if \<not> (0 \<le> activeBlockNo \<and> nat activeBlockNo < length (blockTab s))
         then Some (Inl TypeError)
         else let btr = blockTab s ! nat activeBlockNo
         in if varRefTPos \<ge> tPosEnd btr
            then associateLoop fuel varRefNo (parentBlockNo btr) nextBlockNo s
            else if nextBlockNo < length (blockTab s)
                    \<and> varRefTPos \<ge> tPosBegin (blockTab s ! nextBlockNo)
            then associateLoop fuel varRefNo (int nextBlockNo) (nextBlockNo + 1) s
            else if \<not> varRefTPos \<ge> tPosBegin btr then Some (Inl assertionFailed)
            else let bvNo = length (blockVarNoToVarNoMap btr);
                     btr' = btr\<lparr> blockVarNoToVarNoMap := blockVarNoToVarNoMap btr @ [varNo vrtr],
                                 firstVarRefNo := (if firstVarRefNo btr = - 1 then int varRefNo
                                                   else firstVarRefNo btr) \<rparr>;
                     vrtr' = vrtr\<lparr> vrBlockNo := activeBlockNo, blockVarNo := int bvNo \<rparr>
            in associateLoop fuel (varRefNo + 1) activeBlockNo nextBlockNo
                 (s\<lparr> blockTab := (blockTab s)[nat activeBlockNo := btr'],
                     varRefTab := (varRefTab s)[varRefNo := vrtr'] \<rparr>))"

definition associateVariablesWithBlocks :: "nat \<Rightarrow> Parser \<Rightarrow> (error + Parser) option" where
  "associateVariablesWithBlocks fuel s = associateLoop fuel 0 0 1 s"

subsection \<open>Main\<close>

definition initParsing :: "string \<Rightarrow> Parser" where
  "initParsing mainText =
     \<lparr> templateText = mainText, varTab = [], varRefTab = [], blockTab = [],
       varNameToNoMap = Map.empty, blockNameToNoMap = Map.empty,
       currentNestingLevel = 0,
       openBlocksTab = replicate (nat (maxNestingLevel + 1)) 0,
       condLevel = - 1,
       condEnabled = replicate (nat maxCondLevels) False,
       condPassed = replicate (nat maxCondLevels) False,
       resumeCmdParsingFromStart = False \<rparr>"

text \<open>The parse up to and including the scan for variables; the association pass follows.\<close>

definition parseTemplateScan :: "ParserParms \<Rightarrow> nat \<Rightarrow> (error + Parser) option" where
  "parseTemplateScan pp fuel =
     (case loadTemplateFile pp (mainTemplateName pp) of
        None \<Rightarrow> Some (Inl (LoadError (mainTemplateName pp)))
      | Some mainText \<Rightarrow>
          (case parseTemplateCommands pp fuel 0 (beginMainBlock (initParsing mainText)) of
             None \<Rightarrow> None
           | Some (Inl e) \<Rightarrow> Some (Inl e)
           | Some (Inr s2) \<Rightarrow>
               (case endMainBlock s2 of
                  Inl e \<Rightarrow> Some (Inl e)
                | Inr s3 \<Rightarrow>
                    (case checkBlockDefinitionsComplete s3 of
                       Inl e \<Rightarrow> Some (Inl e)
                     | Inr s4 \<Rightarrow>
                         if condLevel s4 \<noteq> - 1
                         then Some (Inl (templateSyntaxError ''$if without matching $endIf.''))
                         else parseTemplateVariables fuel 0 s4))))"

definition parserResult :: "Parser \<Rightarrow> ParsedTemplate" where
  "parserResult s =
     \<lparr> templateText = templateText s, varTab = varTab s, varRefTab = varRefTab s,
       blockTab = blockTab s, varNameToNoMap = varNameToNoMap s,
       blockNameToNoMap = blockNameToNoMap s \<rparr>"

text \<open>\<open>parseTemplate\<close>: \<open>None\<close> when the fuel does not suffice, \<open>Some (Inl e)\<close> when the parse
  throws \<open>e\<close>, \<open>Some (Inr t)\<close> when it returns the parsed template \<open>t\<close>.\<close>

definition parseTemplate :: "ParserParms \<Rightarrow> nat \<Rightarrow> (error + ParsedTemplate) option" where
  "parseTemplate pp fuel =
     (case parseTemplateScan pp fuel of
        None \<Rightarrow> None
      | Some (Inl e) \<Rightarrow> Some (Inl e)
      | Some (Inr s5) \<Rightarrow>
          (case associateVariablesWithBlocks fuel s5 of
             None \<Rightarrow> None
           | Some (Inl e) \<Rightarrow> Some (Inl e)
           | Some (Inr s6) \<Rightarrow> Some (Inr (parserResult s6))))"

section \<open>The output engine\<close>

text \<open>
  A variable value is a string. \<open>undefined\<close> (a hole of \<open>varValuesTab\<close> or of a
  \<open>blockVarTab\<close>) is written as the empty string: the only reader of a value,
  \<open>if (varValue) out.push(varValue)\<close>, treats both alike. \<open>blockVarTab\<close> is \<open>None\<close> when the
  source leaves the field \<open>undefined\<close> (a block without variables). \<open>currBlockInstNo\<close> is
  \<open>undefined\<close> until the first output generation assigns it; the model starts it as \<open>-1\<close>.
\<close>

record BlockDynTabRec =
  instances :: nat
  firstBlockInstNo :: int
  lastBlockInstNo :: int
  currBlockInstNo :: int

record BlockInstTabRec =
  blockNo :: int
  instanceLevel :: nat
  parentInstLevel :: int
  nextBlockInstNo :: int
  blockVarTab :: "string list option"

record MiniTemplator =
  template :: ParsedTemplate
  varValuesTab :: "string list"
  blockDynTab :: "BlockDynTabRec list"
  blockInstTab :: "BlockInstTabRec list"

text \<open>The argument of \<open>setVariable\<close> is any JavaScript value; \<open>JOther r\<close> is a value that is
  neither a string nor \<open>undefined\<close> nor \<open>null\<close> and whose \<open>toString()\<close> is \<open>r\<close>.\<close>

datatype jsValue = JString string | JUndefined | JNull | JOther string

fun formatVariableValue :: "jsValue \<Rightarrow> string" where
  "formatVariableValue (JString v) = v"
| "formatVariableValue JUndefined = []"
| "formatVariableValue JNull = []"
| "formatVariableValue (JOther r) = r"

text \<open>Reading and writing a JavaScript array of strings: a read outside the array is
  \<open>undefined\<close>, a write behind the end extends the array.\<close>

definition valueGet :: "string list \<Rightarrow> int \<Rightarrow> string" where
  "valueGet xs i = (if 0 \<le> i \<and> nat i < length xs then xs ! nat i else [])"

definition valueSet :: "string list \<Rightarrow> nat \<Rightarrow> string \<Rightarrow> string list" where
  "valueSet xs i v =
     (if i < length xs then xs[i := v] else xs @ replicate (i - length xs) [] @ [v])"

definition emptyBlockDynTabRec :: BlockDynTabRec where
  "emptyBlockDynTabRec =
     \<lparr> instances = 0, firstBlockInstNo = - 1, lastBlockInstNo = - 1, currBlockInstNo = - 1 \<rparr>"

text \<open>\<open>reset\<close>: the loop over \<open>blockNo < blockCount\<close> re-initialises the existing records and
  creates the missing ones.\<close>

definition reset :: "MiniTemplator \<Rightarrow> MiniTemplator" where
  "reset s =
     s\<lparr> varValuesTab := replicate (length (varValuesTab s)) [],
        blockDynTab :=
          map (\<lambda>bNo. (if bNo < length (blockDynTab s) then blockDynTab s ! bNo
                       else emptyBlockDynTabRec)
                      \<lparr> instances := 0, firstBlockInstNo := - 1, lastBlockInstNo := - 1 \<rparr>)
              [0 ..< length (blockTab (template s))]
          @ drop (length (blockTab (template s))) (blockDynTab s),
        blockInstTab := [] \<rparr>"

text \<open>The constructor: the two arrays do not exist yet, so \<open>reset\<close> creates them with
  \<open>varCount\<close> and \<open>blockCount\<close> elements.\<close>

definition newMiniTemplator :: "ParsedTemplate \<Rightarrow> MiniTemplator" where
  "newMiniTemplator t =
     reset \<lparr> template = t, varValuesTab = replicate (length (varTab t)) [],
             blockDynTab = [], blockInstTab = [] \<rparr>"

text \<open>
  A method of the session object returns the error it throws, if any, and the object as the
  call leaves it: an exception does not undo the assignments made before it.
\<close>

definition setVariable :: "MiniTemplator \<Rightarrow> string \<Rightarrow> jsValue \<Rightarrow> error option \<times> MiniTemplator" where
  "setVariable s varName varValue =
     (let n = lookupVariableName (template s) varName
      in if n = - 1 then (Some (variableNotDefinedError varName), s)
         else (None, s\<lparr> varValuesTab :=
                          valueSet (varValuesTab s) (nat n) (formatVariableValue varValue) \<rparr>))"

definition setVariableOpt :: "MiniTemplator \<Rightarrow> string \<Rightarrow> jsValue \<Rightarrow> error option \<times> MiniTemplator" where
  "setVariableOpt s varName varValue =
     (let n = lookupVariableName (template s) varName
      in if n = - 1 then (None, s)
         else (None, s\<lparr> varValuesTab :=
                          valueSet (varValuesTab s) (nat n) (formatVariableValue varValue) \<rparr>))"

definition variableExists :: "MiniTemplator \<Rightarrow> string \<Rightarrow> bool" where
  "variableExists s varName = (lookupVariableName (template s) varName \<noteq> - 1)"

definition blockExists :: "MiniTemplator \<Rightarrow> string \<Rightarrow> bool" where
  "blockExists s name = (lookupBlockName (template s) name \<noteq> - 1)"

definition emptyBlockInstTabRec :: BlockInstTabRec where
  "emptyBlockInstTabRec =
     \<lparr> blockNo = - 1, instanceLevel = 0, parentInstLevel = - 1, nextBlockInstNo = - 1,
       blockVarTab = None \<rparr>"

text \<open>
  \<open>addBlockByNo\<close>, statement by statement. \<open>bdtr\<close> and \<open>btr\<close> are \<open>undefined\<close> when \<open>bNo\<close> is not
  an index of the table, and the first access to one of their fields raises a
  \<open>TypeError\<close>; the object is returned as the assignments before the throw left it.
\<close>

definition addBlockByNo :: "MiniTemplator \<Rightarrow> int \<Rightarrow> error option \<times> MiniTemplator" where
  "addBlockByNo s bNo =
     (let blockInstNo = length (blockInstTab s);
          s1 = s\<lparr> blockInstTab := blockInstTab s @ [emptyBlockInstTabRec] \<rparr>
      in if \<not> (0 \<le> bNo \<and> nat bNo < length (blockDynTab s1)) then (Some TypeError, s1)
         else let bdtr = blockDynTab s1 ! nat bNo;
                  bdtr1 = (if firstBlockInstNo bdtr = - 1
                           then bdtr\<lparr> firstBlockInstNo := int blockInstNo \<rparr> else bdtr);
                  s2 = s1\<lparr> blockDynTab := (blockDynTab s1)[nat bNo := bdtr1] \<rparr>
         in if lastBlockInstNo bdtr1 \<noteq> - 1
               \<and> \<not> (0 \<le> lastBlockInstNo bdtr1
                     \<and> nat (lastBlockInstNo bdtr1) < length (blockInstTab s2))
            then (Some TypeError, s2)
            else let tab = (if lastBlockInstNo bdtr1 \<noteq> - 1
                            then (blockInstTab s2)
                                   [nat (lastBlockInstNo bdtr1) :=
                                      (blockInstTab s2 ! nat (lastBlockInstNo bdtr1))
                                        \<lparr> nextBlockInstNo := int blockInstNo \<rparr>]
                            else blockInstTab s2);
                     bitr = (tab ! blockInstNo)
                              \<lparr> blockNo := bNo, instanceLevel := instances bdtr1 \<rparr>;
                     bdtr2 = bdtr1\<lparr> lastBlockInstNo := int blockInstNo,
                                    instances := instances bdtr1 + 1 \<rparr>;
                     s3 = s2\<lparr> blockDynTab := (blockDynTab s2)[nat bNo := bdtr2],
                              blockInstTab := tab[blockInstNo := bitr] \<rparr>
            in if \<not> nat bNo < length (blockTab (template s3)) then (Some TypeError, s3)
               else let btr = blockTab (template s3) ! nat bNo
               in if parentBlockNo btr \<noteq> - 1
                     \<and> \<not> (0 \<le> parentBlockNo btr
                           \<and> nat (parentBlockNo btr) < length (blockDynTab s3))
                  then (Some TypeError, s3)
                  else let pil = (if parentBlockNo btr = - 1 then - 1
                                  else int (instances (blockDynTab s3 ! nat (parentBlockNo btr))));
                           vars = (if length (blockVarNoToVarNoMap btr) > 0
                                   then Some (map (\<lambda>n. valueGet (varValuesTab s3) (int n))
                                                (blockVarNoToVarNoMap btr))
                                   else blockVarTab bitr);
                           bitr' = bitr\<lparr> parentInstLevel := pil, nextBlockInstNo := - 1,
                                         blockVarTab := vars \<rparr>
                  in (None, s3\<lparr> blockInstTab := (blockInstTab s3)[blockInstNo := bitr'] \<rparr>))"

text \<open>The loop of \<open>addBlocksByNo\<close> follows \<open>nextWithSameName\<close> until \<open>-1\<close>; it takes one unit of
  fuel for each pass.\<close>

fun addBlocksByNo :: "nat \<Rightarrow> MiniTemplator \<Rightarrow> int \<Rightarrow> (error option \<times> MiniTemplator) option" where
  "addBlocksByNo 0 s bNo = None"
| "addBlocksByNo (Suc fuel) s bNo =
     (if bNo = - 1 then Some (None, s)
      else case addBlockByNo s bNo of
             (Some e, s') \<Rightarrow> Some (Some e, s')
           | (None, s') \<Rightarrow>
               addBlocksByNo fuel s' (nextWithSameName (blockTab (template s') ! nat bNo)))"

definition addBlock :: "nat \<Rightarrow> MiniTemplator \<Rightarrow> string \<Rightarrow> (error option \<times> MiniTemplator) option" where
  "addBlock fuel s name =
     (let bNo = lookupBlockName (template s) name
      in if bNo = - 1 then Some (Some (blockNotDefinedError name), s)
         else addBlocksByNo fuel s bNo)"

definition addBlockOpt :: "nat \<Rightarrow> MiniTemplator \<Rightarrow> string \<Rightarrow> (error option \<times> MiniTemplator) option" where
  "addBlockOpt fuel s name = addBlocksByNo fuel s (lookupBlockName (template s) name)"

subsection \<open>Output generation\<close>

text \<open>
  \<open>writeBlockInstances\<close> and \<open>writeBlockInstance\<close> call each other. \<open>instancesStep\<close> is the part
  of the loop body of \<open>writeBlockInstances\<close> before the call of \<open>writeBlockInstance\<close>: it
  throws, leaves the loop, or names the instance to write.
\<close>

datatype instancesStep = InstThrow error | InstBreak | InstWrite nat

definition writeBlockInstancesStep :: "MiniTemplator \<Rightarrow> nat \<Rightarrow> int \<Rightarrow> instancesStep" where
  "writeBlockInstancesStep s bNo pil =
     (if \<not> bNo < length (blockDynTab s) then InstThrow TypeError
      else let blockInstNo = currBlockInstNo (blockDynTab s ! bNo)
      in if blockInstNo = - 1 then InstBreak
         else if \<not> (0 \<le> blockInstNo \<and> nat blockInstNo < length (blockInstTab s))
         then InstThrow TypeError
         else let bitr = blockInstTab s ! nat blockInstNo
         in if \<not> parentInstLevel bitr \<ge> pil then InstThrow assertionFailed
            else if parentInstLevel bitr > pil then InstBreak
            else InstWrite (nat blockInstNo))"

text \<open>\<open>bdtr.currBlockInstNo = bitr.nextBlockInstNo\<close>, the last statement of that loop body.\<close>

definition advanceCursor :: "MiniTemplator \<Rightarrow> nat \<Rightarrow> nat \<Rightarrow> MiniTemplator" where
  "advanceCursor s bNo blockInstNo =
     s\<lparr> blockDynTab := (blockDynTab s)
          [bNo := (blockDynTab s ! bNo)
             \<lparr> currBlockInstNo := nextBlockInstNo (blockInstTab s ! blockInstNo) \<rparr>] \<rparr>"

text \<open>
  \<open>writeChunkStep\<close> is one pass through the loop body of \<open>writeBlockInstance\<close>, up to the
  point where the loop continues, returns, throws, or calls \<open>writeBlockInstances\<close> for a
  subblock. \<open>bitr\<close> and \<open>btr\<close> are the local constants of \<open>writeBlockInstance\<close>; \<open>tPos\<close>,
  \<open>subBlockNo\<close> and \<open>varRefNo\<close> are its loop variables.
\<close>

datatype ChunkKind = endOfBlock | variable | subBlock

datatype chunkStep =
    ChunkThrow error "string list"
  | SkipVarRef
  | SkipSubBlock
  | ChunkEnd "string list"
  | ChunkVariable "string list" nat
  | ChunkSubBlock "string list" nat

definition writeChunkStep ::
  "MiniTemplator \<Rightarrow> string list \<Rightarrow> BlockInstTabRec \<Rightarrow> BlockTabRec \<Rightarrow> nat \<Rightarrow> nat \<Rightarrow> int
    \<Rightarrow> chunkStep" where
  "writeChunkStep s out bitr btr tPos subBlockNo varRefNo =
     (let vrt = varRefTab (template s);
          bt = blockTab (template s);
          checkVar = (varRefNo \<noteq> - 1 \<and> varRefNo < int (length vrt))
      in if checkVar \<and> varRefNo < 0 then ChunkThrow TypeError out
         else if checkVar \<and> vrTPosBegin (vrt ! nat varRefNo) < tPos then SkipVarRef
         else let (tPos2a, kind1) =
                    (if checkVar \<and> vrTPosBegin (vrt ! nat varRefNo) < tPosContentsEnd btr
                     then (vrTPosBegin (vrt ! nat varRefNo), variable)
                     else (tPosContentsEnd btr, endOfBlock));
                  checkSub = (subBlockNo < length bt)
         in if checkSub \<and> tPosBegin (bt ! subBlockNo) < tPos then SkipSubBlock
            else let (tPos2, kind) =
                       (if checkSub \<and> tPosBegin (bt ! subBlockNo) < tPos2a
                        then (tPosBegin (bt ! subBlockNo), subBlock)
                        else (tPos2a, kind1));
                     out1 = (if tPos2 > tPos
                             then out @ [substring (templateText (template s)) tPos tPos2]
                             else out)
            in case kind of
                 endOfBlock \<Rightarrow> ChunkEnd out1
               | variable \<Rightarrow>
                   (let vrtr = vrt ! nat varRefNo
                    in if vrBlockNo vrtr \<noteq> blockNo bitr then ChunkThrow assertionFailed out1
                       else case blockVarTab bitr of
                              None \<Rightarrow> ChunkThrow TypeError out1
                            | Some vals \<Rightarrow>
                                (let varValue = valueGet vals (blockVarNo vrtr)
                                 in ChunkVariable
                                      (if varValue \<noteq> [] then out1 @ [varValue] else out1)
                                      (vrTPosEnd vrtr)))
               | subBlock \<Rightarrow>
                   (if parentBlockNo (bt ! subBlockNo) \<noteq> blockNo bitr
                    then ChunkThrow assertionFailed out1
                    else ChunkSubBlock out1 (tPosEnd (bt ! subBlockNo))))"

text \<open>
  Each call and each pass of a loop takes one unit of fuel. The result is the error thrown,
  if any, with the object and the output array \<open>out\<close> as they are then.
\<close>

fun writeBlockInstances ::
      "nat \<Rightarrow> MiniTemplator \<Rightarrow> string list \<Rightarrow> nat \<Rightarrow> int
        \<Rightarrow> (error option \<times> MiniTemplator \<times> string list) option"
  and writeBlockInstance ::
      "nat \<Rightarrow> MiniTemplator \<Rightarrow> string list \<Rightarrow> nat
        \<Rightarrow> (error option \<times> MiniTemplator \<times> string list) option"
  and writeChunks ::
      "nat \<Rightarrow> MiniTemplator \<Rightarrow> string list \<Rightarrow> BlockInstTabRec \<Rightarrow> BlockTabRec
        \<Rightarrow> nat \<Rightarrow> nat \<Rightarrow> int
        \<Rightarrow> (error option \<times> MiniTemplator \<times> string list) option"
where
  "writeBlockInstances 0 s out bNo pil = None"
| "writeBlockInstances (Suc fuel) s out bNo pil =
     (case writeBlockInstancesStep s bNo pil of
        InstThrow e \<Rightarrow> Some (Some e, s, out)
      | InstBreak \<Rightarrow> Some (None, s, out)
      | InstWrite blockInstNo \<Rightarrow>
          (case writeBlockInstance fuel s out blockInstNo of
             None \<Rightarrow> None
           | Some (Some e, s', out') \<Rightarrow> Some (Some e, s', out')
           | Some (None, s', out') \<Rightarrow>
               writeBlockInstances fuel (advanceCursor s' bNo blockInstNo) out' bNo pil))"
| "writeBlockInstance 0 s out blockInstNo = None"
| "writeBlockInstance (Suc fuel) s out blockInstNo =
     (if \<not> blockInstNo < length (blockInstTab s) then Some (Some TypeError, s, out)
      else if \<not> (0 \<le> blockNo (blockInstTab s ! blockInstNo)
                 \<and> nat (blockNo (blockInstTab s ! blockInstNo)) < length (blockTab (template s)))
      then Some (Some TypeError, s, out)
      else writeChunks fuel s out (blockInstTab s ! blockInstNo)
             (blockTab (template s) ! nat (blockNo (blockInstTab s ! blockInstNo)))
             (tPosContentsBegin (blockTab (template s) ! nat (blockNo (blockInstTab s ! blockInstNo))))
             (nat (blockNo (blockInstTab s ! blockInstNo)) + 1)
             (firstVarRefNo (blockTab (template s) ! nat (blockNo (blockInstTab s ! blockInstNo)))))"
| "writeChunks 0 s out bitr btr tPos subBlockNo varRefNo = None"
| "writeChunks (Suc fuel) s out bitr btr tPos subBlockNo varRefNo =
     (case writeChunkStep s out bitr btr tPos subBlockNo varRefNo of
        ChunkThrow e out1 \<Rightarrow> Some (Some e, s, out1)
      | SkipVarRef \<Rightarrow> writeChunks fuel s out bitr btr tPos subBlockNo (varRefNo + 1)
      | SkipSubBlock \<Rightarrow> writeChunks fuel s out bitr btr tPos (subBlockNo + 1) varRefNo
      | ChunkEnd out1 \<Rightarrow> Some (None, s, out1)
      | ChunkVariable out1 tPos' \<Rightarrow>
          writeChunks fuel s out1 bitr btr tPos' subBlockNo (varRefNo + 1)
      | ChunkSubBlock out1 tPos' \<Rightarrow>
          (case writeBlockInstances fuel s out1 subBlockNo (int (instanceLevel bitr)) of
             None \<Rightarrow> None
           | Some (Some e, s', out') \<Rightarrow> Some (Some e, s', out')
           | Some (None, s', out') \<Rightarrow>
               writeChunks fuel s' out' bitr btr tPos' (subBlockNo + 1) varRefNo))"

definition generateOutputArray ::
  "nat \<Rightarrow> MiniTemplator \<Rightarrow> ((error + string list) \<times> MiniTemplator) option" where
  "generateOutputArray fuel s =
     (if blockDynTab s = [] then Some (Inl TypeError, s)
      else case (if instances (blockDynTab s ! 0) = 0 then addBlockByNo s 0 else (None, s)) of
             (Some e, s1) \<Rightarrow> Some (Inl e, s1)
           | (None, s1) \<Rightarrow>
               (case writeBlockInstances fuel
                       (s1\<lparr> blockDynTab :=
                              map (\<lambda>bdtr. bdtr\<lparr> currBlockInstNo := firstBlockInstNo bdtr \<rparr>)
                                (blockDynTab s1) \<rparr>)
                       [] 0 (- 1) of
                  None \<Rightarrow> None
                | Some (Some e, s2, out) \<Rightarrow> Some (Inl e, s2)
                | Some (None, s2, out) \<Rightarrow> Some (Inr out, s2)))"

definition generateOutputString ::
  "nat \<Rightarrow> MiniTemplator \<Rightarrow> ((error + string) \<times> MiniTemplator) option" where
  "generateOutputString fuel s =
     (case generateOutputArray fuel s of
        None \<Rightarrow> None
      | Some (Inl e, s') \<Rightarrow> Some (Inl e, s')
      | Some (Inr out, s') \<Rightarrow> Some (Inr (join [] out), s'))"

text \<open>\<open>createMiniTemplator\<close> of Index.ts: parse, then construct the session object.\<close>

definition createMiniTemplator :: "ParserParms \<Rightarrow> nat \<Rightarrow> (error + MiniTemplator) option" where
  "createMiniTemplator pp fuel =
     (case parseTemplate pp fuel of
        None \<Rightarrow> None
      | Some (Inl e) \<Rightarrow> Some (Inl e)
      | Some (Inr t) \<Rightarrow> Some (Inr (newMiniTemplator t)))"

section \<open>The cache of parsed templates\<close>

text \<open>
  The value of a condition variable is any JavaScript value: a boolean, \<open>undefined\<close>,
  \<open>null\<close>, a string, a number (the model has the integers) or something else. The map of
  condition variables is a list of pairs with distinct names, in insertion order.
\<close>

datatype condValue = CBool bool | CUndefined | CNull | CString string | CNumber int | CObject

definition showInt :: "int \<Rightarrow> string" where
  "showInt i = (if i < 0 then ''-'' @ showNat (nat (- i)) else showNat (nat i))"

fun encodeConditionVarValue :: "condValue \<Rightarrow> error + string" where
  "encodeConditionVarValue (CString v) = Inr v"
| "encodeConditionVarValue (CNumber n) = Inr (showInt n)"
| "encodeConditionVarValue v = Inl (Error ''Unsupported data type of a condition variable value.'')"

text \<open>The loop of \<open>genConditionVarsCacheKey\<close> over the sorted names, returning the array
  \<open>out\<close>. String concatenation and \<open>join\<close> render \<open>true\<close> as \<open>true\<close> and a number in decimal.\<close>

fun cacheKeyParts :: "(string \<times> condValue) list \<Rightarrow> string list \<Rightarrow> error + string list" where
  "cacheKeyParts conditionVars [] = Inr []"
| "cacheKeyParts conditionVars (varName # rest) =
     (let varValue = (case map_of conditionVars varName of None \<Rightarrow> CUndefined | Some v \<Rightarrow> v)
      in if varValue = CBool False \<or> varValue = CUndefined \<or> varValue = CNull
            \<or> varValue = CString []
         then cacheKeyParts conditionVars rest
         else if varValue = CBool True
         then (case cacheKeyParts conditionVars rest of
                 Inl e \<Rightarrow> Inl e
               | Inr out \<Rightarrow> Inr (''true'' # out))
         else (case encodeConditionVarValue varValue of
                 Inl e \<Rightarrow> Inl e
               | Inr encodedValue \<Rightarrow>
                   (case cacheKeyParts conditionVars rest of
                      Inl e \<Rightarrow> Inl e
                    | Inr out \<Rightarrow> Inr ((encodedValue @ ''='' @ encodedValue) # out))))"

definition genConditionVarsCacheKey :: "(string \<times> condValue) list \<Rightarrow> error + string" where
  "genConditionVarsCacheKey conditionVars =
     (case cacheKeyParts conditionVars (sort (map fst conditionVars)) of
        Inl e \<Rightarrow> Inl e
      | Inr out \<Rightarrow> Inr (join [CHR 0x1E] out))"

definition cacheKey :: "string \<Rightarrow> (string \<times> condValue) list option \<Rightarrow> error + string" where
  "cacheKey templateName conditionVars =
     (case conditionVars of
        None \<Rightarrow> Inr templateName
      | Some cv \<Rightarrow>
          (case genConditionVarsCacheKey cv of
             Inl e \<Rightarrow> Inl e
           | Inr k \<Rightarrow> Inr (templateName @ ''|'' @ k)))"

text \<open>
  The cache object. The file system behind \<open>loadTemplateFile\<close> and the JavaScript evaluation
  of a condition expression under given condition variables are parameters.
\<close>

record MiniTemplatorCache =
  cache :: "string \<rightharpoonup> ParsedTemplate"
  cacheShortFormEnabled :: bool
  cacheLoadTemplateFile :: "string \<Rightarrow> string option"
  cacheConditionEval :: "(string \<times> condValue) list \<Rightarrow> string \<Rightarrow> string + bool"

definition get ::
  "nat \<Rightarrow> MiniTemplatorCache \<Rightarrow> string \<Rightarrow> (string \<times> condValue) list option
    \<Rightarrow> ((error + MiniTemplator) \<times> MiniTemplatorCache) option" where
  "get fuel c templateName conditionVars =
     (case cacheKey templateName conditionVars of
        Inl e \<Rightarrow> Some (Inl e, c)
      | Inr k \<Rightarrow>
          (case cache c k of
             Some t \<Rightarrow> Some (Inr (newMiniTemplator t), c)
           | None \<Rightarrow>
               (case parseTemplate
                       \<lparr> mainTemplateName = templateName,
                         conditionEval = cacheConditionEval c
                                           (case conditionVars of None \<Rightarrow> [] | Some cv \<Rightarrow> cv),
                         shortFormEnabled = cacheShortFormEnabled c,
                         loadTemplateFile = cacheLoadTemplateFile c \<rparr> fuel of
                  None \<Rightarrow> None
                | Some (Inl e) \<Rightarrow> Some (Inl e, c)
                | Some (Inr t) \<Rightarrow> Some (Inr (newMiniTemplator t), c\<lparr> cache := (cache c)(k \<mapsto> t) \<rparr>))))"

primrec prevNamed :: "BlockTabRec list \<Rightarrow> string \<Rightarrow> nat \<Rightarrow> int" where
  "prevNamed bt n 0 = - 1"
| "prevNamed bt n (Suc b) = (if blockName (bt ! b) = Some n then int b else prevNamed bt n b)"

definition blocksNamed :: "string \<Rightarrow> 'a ParsedTemplate_scheme \<Rightarrow> nat list" where
  "blocksNamed n t = filter (\<lambda>b. blockName (blockTab t ! b) = Some n) [0 ..< length (blockTab t)]"

definition namesInv :: "'a ParsedTemplate_scheme \<Rightarrow> bool" where
  "namesInv t =
     ((\<forall>n. lookupBlockName t n = prevNamed (blockTab t) n (length (blockTab t)))
      \<and> (\<forall>b < length (blockTab t). \<forall>n. blockName (blockTab t ! b) = Some n
            \<longrightarrow> nextWithSameName (blockTab t ! b) = prevNamed (blockTab t) n b))"

definition parentsOk :: "BlockTabRec list \<Rightarrow> bool" where
  "parentsOk bt =
     (\<forall>b < length bt. parentBlockNo (bt ! b) = - 1 \<or> 0 \<le> parentBlockNo (bt ! b))"

definition parentsBelow :: "BlockTabRec list \<Rightarrow> bool" where
  "parentsBelow bt = (\<forall>b < length bt. parentBlockNo (bt ! b) < int b)"

definition parentsInv :: "Parser \<Rightarrow> bool" where
  "parentsInv s =
     (currentNestingLevel s \<le> 30 \<and> length (openBlocksTab s) = 31
      \<and> (\<forall>i. 0 \<le> i \<and> i < currentNestingLevel s \<longrightarrow>
             openBlocksTab s ! nat i < int (length (blockTab s)))
      \<and> parentsBelow (blockTab s)
      \<and> (length (blockTab s) \<le> 32768 \<longrightarrow>
            (\<forall>i. 0 \<le> i \<and> i < currentNestingLevel s \<longrightarrow> 0 \<le> openBlocksTab s ! nat i)
            \<and> parentsOk (blockTab s)))"

definition rootInv :: "'a ParsedTemplate_scheme \<Rightarrow> bool" where
  "rootInv t =
     (blockTab t \<noteq> [] \<and> blockName (blockTab t ! 0) = None \<and> \<not> dummy (blockTab t ! 0)
      \<and> tPosContentsBegin (blockTab t ! 0) = 0 \<and> parentBlockNo (blockTab t ! 0) = - 1
      \<and> (\<forall>b < length (blockTab t). dummy (blockTab t ! b) \<longrightarrow> blockName (blockTab t ! b) = None))"

definition mapsEmpty :: "'a ParsedTemplate_scheme \<Rightarrow> bool" where
  "mapsEmpty t =
     (\<forall>b < length (blockTab t). blockVarNoToVarNoMap (blockTab t ! b) = []
          \<and> firstVarRefNo (blockTab t ! b) = - 1)"

definition varsInv :: "'a ParsedTemplate_scheme \<Rightarrow> bool" where
  "varsInv t =
     ((\<forall>n. varNameToNoMap t n = None \<longleftrightarrow> n \<notin> set (varTab t))
      \<and> (\<forall>n v. varNameToNoMap t n = Some v \<longrightarrow> v < length (varTab t) \<and> varTab t ! v = n)
      \<and> (\<forall>r \<in> set (varRefTab t). varNo r < length (varTab t)))"

definition cmdInv :: "Parser \<Rightarrow> bool" where
  "cmdInv s = (namesInv s \<and> parentsInv s \<and> rootInv s \<and> mapsEmpty s \<and> varsInv s)"

definition rootSpan :: "'a ParsedTemplate_scheme \<Rightarrow> bool" where
  "rootSpan t = (tPosContentsEnd (blockTab t ! 0) = length (templateText t))"

definition stripVars :: "BlockTabRec \<Rightarrow> BlockTabRec" where
  "stripVars btr = btr\<lparr> blockVarNoToVarNoMap := [], firstVarRefNo := - 1 \<rparr>"

definition stripBlocks :: "VarRefTabRec \<Rightarrow> VarRefTabRec" where
  "stripBlocks r = r\<lparr> vrBlockNo := - 1, blockVarNo := - 1 \<rparr>"

text \<open>What the association pass establishes for the references below \<open>k\<close>.\<close>

definition assocInv :: "'a ParsedTemplate_scheme \<Rightarrow> nat \<Rightarrow> bool" where
  "assocInv t k =
     ((\<forall>b < length (blockTab t). \<forall>v \<in> set (blockVarNoToVarNoMap (blockTab t ! b)).
          \<exists>i < k. i < length (varRefTab t) \<and> varNo (varRefTab t ! i) = v
                  \<and> vrBlockNo (varRefTab t ! i) = int b)
      \<and> (\<forall>b < length (blockTab t). firstVarRefNo (blockTab t ! b) = - 1
            \<longrightarrow> blockVarNoToVarNoMap (blockTab t ! b) = [])
      \<and> (\<forall>i < k. i < length (varRefTab t) \<longrightarrow>
            0 \<le> vrBlockNo (varRefTab t ! i)
            \<and> nat (vrBlockNo (varRefTab t ! i)) < length (blockTab t)
            \<and> 0 \<le> blockVarNo (varRefTab t ! i)
            \<and> nat (blockVarNo (varRefTab t ! i))
                  < length (blockVarNoToVarNoMap (blockTab t ! nat (vrBlockNo (varRefTab t ! i))))
            \<and> blockVarNoToVarNoMap (blockTab t ! nat (vrBlockNo (varRefTab t ! i)))
                  ! nat (blockVarNo (varRefTab t ! i)) = varNo (varRefTab t ! i)))"

text \<open>The assignments of one pass of the association loop that assigns reference \<open>k\<close> to
  block \<open>a\<close>.\<close>

definition assign :: "nat \<Rightarrow> nat \<Rightarrow> Parser \<Rightarrow> Parser" where
  "assign k a s =
     s\<lparr> blockTab := (blockTab s)
          [a := (blockTab s ! a)
             \<lparr> blockVarNoToVarNoMap := blockVarNoToVarNoMap (blockTab s ! a) @ [varNo (varRefTab s ! k)],
               firstVarRefNo := (if firstVarRefNo (blockTab s ! a) = - 1 then int k
                                 else firstVarRefNo (blockTab s ! a)) \<rparr>],
        varRefTab := (varRefTab s)
          [k := (varRefTab s ! k)
             \<lparr> vrBlockNo := int a,
               blockVarNo := int (length (blockVarNoToVarNoMap (blockTab s ! a))) \<rparr>] \<rparr>"

definition templateOk :: "'a ParsedTemplate_scheme \<Rightarrow> bool" where
  "templateOk t =
     (namesInv t \<and> rootInv t \<and> rootSpan t \<and> varsInv t
      \<and> assocInv t (length (varRefTab t))
      \<and> parentsBelow (blockTab t)
      \<and> (length (blockTab t) \<le> 32768 \<longrightarrow> parentsOk (blockTab t)))"

definition instancesOf :: "BlockInstTabRec list \<Rightarrow> nat \<Rightarrow> nat list" where
  "instancesOf tab b = filter (\<lambda>i. blockNo (tab ! i) = int b) [0 ..< length tab]"

definition chainOk :: "BlockInstTabRec list \<Rightarrow> BlockDynTabRec \<Rightarrow> nat list \<Rightarrow> bool" where
  "chainOk tab d is =
     (instances d = length is
      \<and> firstBlockInstNo d = (if is = [] then - 1 else int (hd is))
      \<and> lastBlockInstNo d = (if is = [] then - 1 else int (last is))
      \<and> (\<forall>k < length is.
            instanceLevel (tab ! (is ! k)) = k
            \<and> nextBlockInstNo (tab ! (is ! k)) = (if Suc k < length is then int (is ! Suc k) else - 1)))"

definition sessionOk :: "MiniTemplator \<Rightarrow> bool" where
  "sessionOk s =
     (length (blockDynTab s) = length (blockTab (template s))
      \<and> (\<forall>b < length (blockDynTab s).
            chainOk (blockInstTab s) (blockDynTab s ! b) (instancesOf (blockInstTab s) b))
      \<and> (\<forall>i < length (blockInstTab s).
            0 \<le> blockNo (blockInstTab s ! i)
            \<and> nat (blockNo (blockInstTab s ! i)) < length (blockDynTab s)))"

text \<open>The record that \<open>addBlockByNo\<close> appends for block \<open>b\<close> in state \<open>s\<close>.\<close>

definition newInstance :: "MiniTemplator \<Rightarrow> nat \<Rightarrow> BlockInstTabRec" where
  "newInstance s b =
     (let btr = blockTab (template s) ! b
      in \<lparr> blockNo = int b,
           instanceLevel = instances (blockDynTab s ! b),
           parentInstLevel = (if parentBlockNo btr = - 1 then - 1
                              else int (instances (blockDynTab s ! nat (parentBlockNo btr)))),
           nextBlockInstNo = - 1,
           blockVarTab = (if blockVarNoToVarNoMap btr = [] then None
                          else Some (map (\<lambda>n. valueGet (varValuesTab s) (int n))
                                       (blockVarNoToVarNoMap btr))) \<rparr>)"

text \<open>The state after the assignments of \<open>addBlockByNo\<close> for block \<open>b\<close> that link the new
  record \<open>r\<close> to the chain of \<open>b\<close>.\<close>

definition addedRec :: "MiniTemplator \<Rightarrow> nat \<Rightarrow> BlockInstTabRec \<Rightarrow> MiniTemplator" where
  "addedRec s b r =
     (let d = blockDynTab s ! b; l = length (blockInstTab s)
      in s\<lparr> blockDynTab := (blockDynTab s)
               [b := d\<lparr> firstBlockInstNo := (if firstBlockInstNo d = - 1 then int l
                                             else firstBlockInstNo d),
                        lastBlockInstNo := int l,
                        instances := instances d + 1 \<rparr>],
             blockInstTab :=
               (if lastBlockInstNo d \<noteq> - 1
                then (blockInstTab s)
                       [nat (lastBlockInstNo d) :=
                          (blockInstTab s ! nat (lastBlockInstNo d))\<lparr> nextBlockInstNo := int l \<rparr>]
                else blockInstTab s) @ [r] \<rparr>)"

text \<open>The state after a successful \<open>addBlockByNo\<close> for block \<open>b\<close>.\<close>

definition added :: "MiniTemplator \<Rightarrow> nat \<Rightarrow> MiniTemplator" where
  "added s b = addedRec s b (newInstance s b)"

text \<open>The new record as it is when \<open>addBlockByNo\<close> throws at the access to the parent
  block.\<close>

definition partialInstance :: "MiniTemplator \<Rightarrow> nat \<Rightarrow> BlockInstTabRec" where
  "partialInstance s b =
     \<lparr> blockNo = int b, instanceLevel = instances (blockDynTab s ! b),
       parentInstLevel = - 1, nextBlockInstNo = - 1, blockVarTab = None \<rparr>"

text \<open>Two session objects that differ at most in the cursors \<open>currBlockInstNo\<close>.\<close>

definition noCursor :: "BlockDynTabRec \<Rightarrow> BlockDynTabRec" where
  "noCursor d = d\<lparr> currBlockInstNo := - 1 \<rparr>"

definition sameSession :: "MiniTemplator \<Rightarrow> MiniTemplator \<Rightarrow> bool" where
  "sameSession s s' =
     (template s' = template s \<and> varValuesTab s' = varValuesTab s
      \<and> blockInstTab s' = blockInstTab s
      \<and> map noCursor (blockDynTab s') = map noCursor (blockDynTab s))"

text \<open>The session objects that a program can reach from the constructor through the public
  methods; a method that throws leaves the object as it is at the throw.\<close>

inductive reachable :: "ParsedTemplate \<Rightarrow> MiniTemplator \<Rightarrow> bool" for t where
  reachNew: "reachable t (newMiniTemplator t)"
| reachReset: "reachable t s \<Longrightarrow> reachable t (reset s)"
| reachSetVariable: "reachable t s \<Longrightarrow> reachable t (snd (setVariable s varName v))"
| reachSetVariableOpt: "reachable t s \<Longrightarrow> reachable t (snd (setVariableOpt s varName v))"
| reachAddBlock: "reachable t s \<Longrightarrow> addBlock fuel s name = Some (r, s') \<Longrightarrow> reachable t s'"
| reachAddBlockOpt: "reachable t s \<Longrightarrow> addBlockOpt fuel s name = Some (r, s') \<Longrightarrow> reachable t s'"
| reachGenerate: "reachable t s \<Longrightarrow> generateOutputString fuel s = Some (ro, s') \<Longrightarrow> reachable t s'"

text \<open>The state after successful calls of \<open>addBlockByNo\<close> for the blocks \<open>bs\<close>, in this order.\<close>

definition addedAll :: "MiniTemplator \<Rightarrow> nat list \<Rightarrow> MiniTemplator" where
  "addedAll s bs = foldl added s bs"

text \<open>The blocks named \<open>n\<close> among the first \<open>k\<close> blocks, the last one first: the chain of
  \<open>nextWithSameName\<close>.\<close>

definition chainBlocks :: "BlockTabRec list \<Rightarrow> string \<Rightarrow> nat \<Rightarrow> nat list" where
  "chainBlocks bt n k = rev (filter (\<lambda>b. blockName (bt ! b) = Some n) [0 ..< k])"

section \<open>Client programs\<close>

text \<open>
  A client program, like Example1.ts, creates a session object from a template and calls its
  public methods one after the other. \<open>Threw e\<close> records a call that threw \<open>e\<close>; the
  program goes on with the object as the throw left it.
\<close>

datatype apiCall =
    SetVariable string jsValue
  | SetVariableOpt string jsValue
  | AddBlock string
  | AddBlockOpt string
  | Reset
  | GenerateOutputString

datatype apiResult = Returned | Threw error | Output string

definition voidResult :: "error option \<Rightarrow> apiResult" where
  "voidResult r = (case r of None \<Rightarrow> Returned | Some e \<Rightarrow> Threw e)"

fun callMethod :: "nat \<Rightarrow> MiniTemplator \<Rightarrow> apiCall \<Rightarrow> (apiResult \<times> MiniTemplator) option" where
  "callMethod fuel s (SetVariable n v) = Some (map_prod voidResult id (setVariable s n v))"
| "callMethod fuel s (SetVariableOpt n v) = Some (map_prod voidResult id (setVariableOpt s n v))"
| "callMethod fuel s (AddBlock n) = map_option (map_prod voidResult id) (addBlock fuel s n)"
| "callMethod fuel s (AddBlockOpt n) = map_option (map_prod voidResult id) (addBlockOpt fuel s n)"
| "callMethod fuel s Reset = Some (Returned, reset s)"
| "callMethod fuel s GenerateOutputString =
     map_option (map_prod (case_sum Threw Output) id) (generateOutputString fuel s)"

fun runCalls :: "nat \<Rightarrow> MiniTemplator \<Rightarrow> apiCall list \<Rightarrow> (apiResult list \<times> MiniTemplator) option" where
  "runCalls fuel s [] = Some ([], s)"
| "runCalls fuel s (c # cs) =
     (case callMethod fuel s c of
        None \<Rightarrow> None
      | Some (r, s') \<Rightarrow> map_option (map_prod ((#) r) id) (runCalls fuel s' cs))"

text \<open>The results of the calls of a program on the template of \<open>pp\<close>, and the final object;
  \<open>Inl e\<close> when the parse throws \<open>e\<close>.\<close>

definition runProgram ::
  "ParserParms \<Rightarrow> nat \<Rightarrow> apiCall list \<Rightarrow> (error + apiResult list \<times> MiniTemplator) option" where
  "runProgram pp fuel cs =
     (case createMiniTemplator pp fuel of
        None \<Rightarrow> None
      | Some (Inl e) \<Rightarrow> Some (Inl e)
      | Some (Inr s) \<Rightarrow> map_option Inr (runCalls fuel s cs))"

text \<open>The parser parameters for a single template text without condition variables (every
  condition expression throws) and without subtemplates.\<close>

definition plainParms :: "string \<Rightarrow> ParserParms" where
  "plainParms mainText =
     \<lparr> mainTemplateName = ''template.html'',
       conditionEval = (\<lambda>e. Inl ''ReferenceError''),
       shortFormEnabled = False,
       loadTemplateFile = (\<lambda>n. if n = ''template.html'' then Some mainText else None) \<rparr>"

text \<open>Two session objects that differ at most in the current variable values.\<close>

definition sameButValues :: "MiniTemplator \<Rightarrow> MiniTemplator \<Rightarrow> bool" where
  "sameButValues s s' =
     (template s' = template s \<and> blockDynTab s' = blockDynTab s \<and> blockInstTab s' = blockInstTab s)"

text \<open>The outcome of a write function without the session object: the error and the output.\<close>

definition written ::
  "(error option \<times> MiniTemplator \<times> string list) option \<Rightarrow> (error option \<times> string list) option" where
  "written r = map_option (\<lambda>(e, s, out). (e, out)) r"

text \<open>The snapshot that \<open>addBlockByNo\<close> stores for block \<open>b\<close> in state \<open>s\<close>.\<close>

definition snapshotOf :: "MiniTemplator \<Rightarrow> nat \<Rightarrow> string list option" where
  "snapshotOf s b =
     (if blockVarNoToVarNoMap (blockTab (template s) ! b) = [] then None
      else Some (map (\<lambda>n. valueGet (varValuesTab s) (int n))
                   (blockVarNoToVarNoMap (blockTab (template s) ! b))))"

fun isSetVariable :: "apiCall \<Rightarrow> bool" where
  "isSetVariable (SetVariable n v) = True"
| "isSetVariable (SetVariableOpt n v) = True"
| "isSetVariable c = False"

text \<open>Two outcomes of a write function that agree up to the current variable values.\<close>

definition relW ::
  "(error option \<times> MiniTemplator \<times> string list) option
    \<Rightarrow> (error option \<times> MiniTemplator \<times> string list) option \<Rightarrow> bool" where
  "relW r1 r2 =
     (case (r1, r2) of
        (None, None) \<Rightarrow> True
      | (Some (e1, t1, o1), Some (e2, t2, o2)) \<Rightarrow> e1 = e2 \<and> o1 = o2 \<and> sameButValues t1 t2
      | _ \<Rightarrow> False)"

text \<open>The parsed form of a text without commands and without placeholders: the main block
  alone, spanning the text.\<close>

definition plainTemplate :: "string \<Rightarrow> ParsedTemplate" where
  "plainTemplate text =
     \<lparr> templateText = text, varTab = [], varRefTab = [],
       blockTab =
         [\<lparr> blockName = None, nextWithSameName = - 1, tPosBegin = 0, tPosContentsBegin = 0,
            tPosContentsEnd = length text, tPosEnd = length text, nestingLevel = 0,
            parentBlockNo = - 1, definitionIsOpen = False, blockVarNoToVarNoMap = [],
            firstVarRefNo = - 1, dummy = False \<rparr>],
       varNameToNoMap = Map.empty, blockNameToNoMap = Map.empty \<rparr>"

text \<open>The object that \<open>generateOutputArray\<close> hands to \<open>writeBlockInstances\<close>: the main block has
  got its instance, and every cursor is at the first instance of its block.\<close>

definition writerStart :: "MiniTemplator \<Rightarrow> MiniTemplator" where
  "writerStart s =
     (let s1 = (if instances (blockDynTab s ! 0) = 0 then added s 0 else s)
      in s1\<lparr> blockDynTab :=
               map (\<lambda>bdtr. bdtr\<lparr> currBlockInstNo := firstBlockInstNo bdtr \<rparr>) (blockDynTab s1) \<rparr>)"

text \<open>Two session objects that differ at most in the current value of variable \<open>n\<close>.\<close>

definition agreeExcept :: "nat \<Rightarrow> MiniTemplator \<Rightarrow> MiniTemplator \<Rightarrow> bool" where
  "agreeExcept n s s' =
     (sameButValues s s'
      \<and> (\<forall>i. i \<noteq> n \<longrightarrow> valueGet (varValuesTab s') (int i) = valueGet (varValuesTab s) (int i)))"

text \<open>Two calls that are the same call, or that set the variable \<open>x\<close> to two values.\<close>

fun sameCall :: "string \<Rightarrow> apiCall \<Rightarrow> apiCall \<Rightarrow> bool" where
  "sameCall x (SetVariable n v) (SetVariable n' v') = (n = n' \<and> (n = x \<or> v = v'))"
| "sameCall x (SetVariableOpt n v) (SetVariableOpt n' v') = (n = n' \<and> (n = x \<or> v = v'))"
| "sameCall x c c' = (c = c')"

text \<open>Two outcomes of a method call: the same result, and objects that differ at most in the
  value of variable \<open>n\<close>.\<close>

definition relCall ::
  "nat \<Rightarrow> ('a \<times> MiniTemplator) option \<Rightarrow> ('a \<times> MiniTemplator) option \<Rightarrow> bool" where
  "relCall n r r' =
     (case (r, r') of
        (None, None) \<Rightarrow> True
      | (Some (a, s1), Some (a', s1')) \<Rightarrow> a = a' \<and> agreeExcept n s1 s1'
      | _ \<Rightarrow> False)"

text \<open>
  The evaluation of condition expressions for the condition variables \<open>vars\<close> with boolean
  values, as far as the examples need it: an expression that is the name of a condition
  variable evaluates to the value of the variable; every other expression is taken as an
  identifier that is not defined, for which the compiled function throws a
  \<open>ReferenceError\<close>.
\<close>

definition conditionVarsEval :: "(string \<times> bool) list \<Rightarrow> string \<Rightarrow> string + bool" where
  "conditionVarsEval vars condExpr =
     (case map_of vars (trim condExpr) of
        Some b \<Rightarrow> Inr b
      | None \<Rightarrow> Inl (''ReferenceError: '' @ trim condExpr @ '' is not defined''))"

text \<open>The parser parameters for a single template text with condition variables.\<close>

definition condParms :: "(string \<times> bool) list \<Rightarrow> string \<Rightarrow> ParserParms" where
  "condParms vars mainText =
     \<lparr> mainTemplateName = ''template.html'',
       conditionEval = conditionVarsEval vars,
       shortFormEnabled = False,
       loadTemplateFile = (\<lambda>n. if n = ''template.html'' then Some mainText else None) \<rparr>"



text \<open>
  The placeholders of a text from position \<open>p\<close> on, from left to right: a placeholder starts
  at the next \<open>${\<close> and ends with the next \<open>}\<close>; the search for the following one starts behind
  it. Each entry is the name (the text between \<open>${\<close> and \<open>}\<close>, trimmed), the position of the
  \<open>${\<close> and the position behind the \<open>}\<close>. A \<open>${\<close> without a \<open>}\<close> ends the list.
\<close>

function placeholdersFrom :: "string \<Rightarrow> nat \<Rightarrow> (string \<times> nat \<times> nat) list" where
  "placeholdersFrom txt p =
     (if indexOf txt ''${'' p = - 1 then []
      else if indexOf txt ''}'' (nat (indexOf txt ''${'' p)) = - 1 then []
      else (trim (substring txt (nat (indexOf txt ''${'' p) + 2)
                    (nat (indexOf txt ''}'' (nat (indexOf txt ''${'' p))))),
            nat (indexOf txt ''${'' p),
            nat (indexOf txt ''}'' (nat (indexOf txt ''${'' p))) + 1)
           # placeholdersFrom txt (nat (indexOf txt ''}'' (nat (indexOf txt ''${'' p))) + 1))"
  by pat_completeness auto
termination
proof (relation "measure (\<lambda>(txt, p). length txt - p)")
  show "wf (measure (\<lambda>(txt, p). length txt - p))" by simp
next
  fix tx :: string and p :: nat
  have sw: "startsWith s pat \<Longrightarrow> length pat \<le> length s" for s pat :: string
    by (induction s pat rule: startsWith.induct) simp_all
  have fi: "firstIndex pat s = Some k \<Longrightarrow> pat \<noteq> [] \<Longrightarrow> k < length s" for pat s k
  proof (induction s arbitrary: k)
    case Nil
    then show ?case by simp
  next
    case (Cons c cs)
    then show ?case by (auto split: if_splits)
  qed
  have io: "indexOf s pat q \<noteq> - 1 \<Longrightarrow> pat \<noteq> [] \<Longrightarrow>
     int (min q (length s)) \<le> indexOf s pat q \<and> indexOf s pat q < int (length s)"
    for s pat q
    using fi [of pat "drop (min q (length s)) s"]
    by (auto simp: indexOf_def Let_def split: option.splits)
  assume a: "indexOf tx ''${'' p \<noteq> - 1"
    and b: "indexOf tx ''}'' (nat (indexOf tx ''${'' p)) \<noteq> - 1"
  from io [OF a] have 1: "int (min p (length tx)) \<le> indexOf tx ''${'' p"
    "indexOf tx ''${'' p < int (length tx)" by simp_all
  from io [OF b] have 2: "int (min (nat (indexOf tx ''${'' p)) (length tx))
      \<le> indexOf tx ''}'' (nat (indexOf tx ''${'' p))"
    "indexOf tx ''}'' (nat (indexOf tx ''${'' p)) < int (length tx)" by simp_all
  show "((tx, nat (indexOf tx ''}'' (nat (indexOf tx ''${'' p))) + 1), (tx, p))
          \<in> measure (\<lambda>(tx, p). length tx - p)"
    using 1 2 by (auto simp: min_def split: if_splits)
qed

declare placeholdersFrom.simps [simp del]

text \<open>The placeholders of a text.\<close>

definition placeholders :: "string \<Rightarrow> (string \<times> nat \<times> nat) list" where
  "placeholders txt = placeholdersFrom txt 0"

text \<open>Name and position of the variable references of a parsed template.\<close>

definition references :: "'a ParsedTemplate_scheme \<Rightarrow> (string \<times> nat \<times> nat) list" where
  "references t = map (\<lambda>r. (varTab t ! varNo r, vrTPosBegin r, vrTPosEnd r)) (varRefTab t)"

text \<open>The variable tables of two parser states are the same.\<close>

definition sameVars :: "Parser \<Rightarrow> Parser \<Rightarrow> bool" where
  "sameVars s s' = (varTab s' = varTab s \<and> varRefTab s' = varRefTab s)"

text \<open>The example of a block with one variable.\<close>

definition snapshotExample :: ParserParms where
  "snapshotExample = plainParms ''<!-- $beginBlock row -->[${x}]<!-- $endBlock row -->''"











lemma prevNamed_cong:
  "(\<And>i. i < b \<Longrightarrow> blockName (bt' ! i) = blockName (bt ! i)) \<Longrightarrow> prevNamed bt' n b = prevNamed bt n b"
  by (induction b) auto

lemma prevNamed_append [simp]:
  "b \<le> length bt \<Longrightarrow> prevNamed (bt @ [x]) n b = prevNamed bt n b"
  by (rule prevNamed_cong) (simp add: nth_append)

lemma prevNamed_bounds: "- 1 \<le> prevNamed bt n b \<and> prevNamed bt n b < int b"
  by (induction b) auto

lemma prevNamed_named:
  "prevNamed bt n b \<noteq> - 1 \<Longrightarrow> blockName (bt ! nat (prevNamed bt n b)) = Some n"
  by (induction b) auto

lemma prevNamed_none:
  "prevNamed bt n b = - 1 \<longleftrightarrow> (\<forall>i < b. blockName (bt ! i) \<noteq> Some n)"
  by (induction b) (auto simp: less_Suc_eq)

lemma registerBlock_fst [simp]: "fst (registerBlock name s) = length (blockTab s)"
  by (simp add: registerBlock_def Let_def)

lemma registerBlock_blockTab:
  "blockTab (snd (registerBlock name s)) = blockTab s @
     [\<lparr> blockName = name,
        nextWithSameName = (case name of Some n \<Rightarrow> lookupBlockName s n | None \<Rightarrow> - 1),
        tPosBegin = 0, tPosContentsBegin = 0, tPosContentsEnd = 0, tPosEnd = 0,
        nestingLevel = currentNestingLevel s,
        parentBlockNo = (if currentNestingLevel s > 0
                         then int16Get (openBlocksTab s) (currentNestingLevel s - 1) else - 1),
        definitionIsOpen = True, blockVarNoToVarNoMap = [], firstVarRefNo = - 1, dummy = False \<rparr>]"
  by (simp add: registerBlock_def Let_def)

lemma registerBlock_length [simp]:
  "length (blockTab (snd (registerBlock name s))) = Suc (length (blockTab s))"
  by (simp add: registerBlock_blockTab)

lemma registerBlock_other [simp]:
  "currentNestingLevel (snd (registerBlock name s)) = currentNestingLevel s"
  "openBlocksTab (snd (registerBlock name s)) = openBlocksTab s"
  "condLevel (snd (registerBlock name s)) = condLevel s"
  "condEnabled (snd (registerBlock name s)) = condEnabled s"
  "condPassed (snd (registerBlock name s)) = condPassed s"
  "templateText (snd (registerBlock name s)) = templateText s"
  "varTab (snd (registerBlock name s)) = varTab s"
  "varRefTab (snd (registerBlock name s)) = varRefTab s"
  "varNameToNoMap (snd (registerBlock name s)) = varNameToNoMap s"
  "resumeCmdParsingFromStart (snd (registerBlock name s)) = resumeCmdParsingFromStart s"
  by (simp_all add: registerBlock_def Let_def)

lemma registerBlock_lookup:
  "lookupBlockName (snd (registerBlock name s)) n =
     (if name = Some n then int (length (blockTab s)) else lookupBlockName s n)"
  by (auto simp: registerBlock_def Let_def lookupBlockName_def split: option.splits)

lemma registerBlock_namesInv:
  assumes "namesInv s"
  shows "namesInv (snd (registerBlock name s))"
  using assms
  unfolding namesInv_def
  by (auto simp: registerBlock_lookup registerBlock_blockTab nth_append less_Suc_eq)

lemma registerBlock_parentsInv:
  assumes "parentsInv s"
  shows "parentsInv (snd (registerBlock name s))"
proof -
  let ?s' = "snd (registerBlock name s)"
  from assms have cnl: "currentNestingLevel s \<le> 30" and len: "length (openBlocksTab s) = 31"
    and open_lt: "\<And>i. 0 \<le> i \<Longrightarrow> i < currentNestingLevel s \<Longrightarrow>
             openBlocksTab s ! nat i < int (length (blockTab s))"
    and below: "parentsBelow (blockTab s)"
    and small: "length (blockTab s) \<le> 32768 \<Longrightarrow>
            (\<forall>i. 0 \<le> i \<and> i < currentNestingLevel s \<longrightarrow> 0 \<le> openBlocksTab s ! nat i)
            \<and> parentsOk (blockTab s)"
    unfolding parentsInv_def by auto
  have par: "parentBlockNo (blockTab ?s' ! length (blockTab s))
      = (if currentNestingLevel s > 0
         then openBlocksTab s ! nat (currentNestingLevel s - 1) else - 1)"
    using cnl len by (auto simp: registerBlock_blockTab int16Get_def)
  have old: "blockTab ?s' ! b = blockTab s ! b" if "b < length (blockTab s)" for b
    using that by (simp add: registerBlock_blockTab nth_append)
  have c3: "openBlocksTab ?s' ! nat i < int (length (blockTab ?s'))"
    if "0 \<le> i" "i < currentNestingLevel ?s'" for i
    using open_lt [of i] that by simp
  have c4: "parentsBelow (blockTab ?s')"
    unfolding parentsBelow_def
  proof (intro allI impI)
    fix b assume "b < length (blockTab ?s')"
    then consider "b < length (blockTab s)" | "b = length (blockTab s)" by fastforce
    then show "parentBlockNo (blockTab ?s' ! b) < int b"
    proof cases
      case 1
      then show ?thesis using below by (simp add: old parentsBelow_def)
    next
      case 2
      then show ?thesis
        using par open_lt [of "currentNestingLevel s - 1"] by auto
    qed
  qed
  have c5: "(\<forall>i. 0 \<le> i \<and> i < currentNestingLevel ?s' \<longrightarrow> 0 \<le> openBlocksTab ?s' ! nat i)
            \<and> parentsOk (blockTab ?s')"
    if le: "length (blockTab ?s') \<le> 32768"
  proof -
    from le have "length (blockTab s) \<le> 32768" by simp
    from small [OF this] have nn: "\<And>i. 0 \<le> i \<Longrightarrow> i < currentNestingLevel s \<Longrightarrow> 0 \<le> openBlocksTab s ! nat i"
      and pk: "parentsOk (blockTab s)" by auto
    have "parentsOk (blockTab ?s')"
      unfolding parentsOk_def
    proof (intro allI impI)
      fix b assume "b < length (blockTab ?s')"
      then consider "b < length (blockTab s)" | "b = length (blockTab s)" by fastforce
      then show "parentBlockNo (blockTab ?s' ! b) = - 1 \<or> 0 \<le> parentBlockNo (blockTab ?s' ! b)"
      proof cases
        case 1
        then show ?thesis using pk by (simp add: old parentsOk_def)
      next
        case 2
        then show ?thesis
          using par nn [of "currentNestingLevel s - 1"] by auto
      qed
    qed
    then show ?thesis using nn by simp
  qed
  show ?thesis
    unfolding parentsInv_def using cnl len c3 c4 c5 by simp
qed

lemma lookupBlockName_blockTab_update [simp]:
  "lookupBlockName (s\<lparr>blockTab := bt\<rparr>) n = lookupBlockName s n"
  by (simp add: lookupBlockName_def)

lemma modifyBlock_fields [simp]:
  "length (blockTab (modifyBlock b f s)) = length (blockTab s)"
  "currentNestingLevel (modifyBlock b f s) = currentNestingLevel s"
  "openBlocksTab (modifyBlock b f s) = openBlocksTab s"
  "condLevel (modifyBlock b f s) = condLevel s"
  "condEnabled (modifyBlock b f s) = condEnabled s"
  "condPassed (modifyBlock b f s) = condPassed s"
  "templateText (modifyBlock b f s) = templateText s"
  "varTab (modifyBlock b f s) = varTab s"
  "varRefTab (modifyBlock b f s) = varRefTab s"
  "varNameToNoMap (modifyBlock b f s) = varNameToNoMap s"
  "blockNameToNoMap (modifyBlock b f s) = blockNameToNoMap s"
  "resumeCmdParsingFromStart (modifyBlock b f s) = resumeCmdParsingFromStart s"
  "lookupBlockName (modifyBlock b f s) n = lookupBlockName s n"
  by (simp_all add: modifyBlock_def)

lemma modifyBlock_Nil [simp]: "blockTab (modifyBlock b f s) = [] \<longleftrightarrow> blockTab s = []"
  by (simp add: modifyBlock_def)

lemma modifyBlock_nth:
  "i < length (blockTab s) \<Longrightarrow>
   blockTab (modifyBlock b f s) ! i = (if i = b then f (blockTab s ! i) else blockTab s ! i)"
  by (simp add: modifyBlock_def nth_list_update)

lemma modifyBlock_namesInv:
  assumes "namesInv s"
    and "\<And>x. blockName (f x) = blockName x" "\<And>x. nextWithSameName (f x) = nextWithSameName x"
  shows "namesInv (modifyBlock b f s)"
proof -
  have eq: "prevNamed (blockTab (modifyBlock b f s)) n k = prevNamed (blockTab s) n k"
    if "k \<le> length (blockTab s)" for n k
    using that assms(2) by (intro prevNamed_cong) (simp add: modifyBlock_nth)
  show ?thesis
    using assms unfolding namesInv_def
    by (simp add: eq modifyBlock_nth)
qed

lemma modifyBlock_parentsInv:
  assumes "parentsInv s" and "\<And>x. parentBlockNo (f x) = parentBlockNo x"
  shows "parentsInv (modifyBlock b f s)"
proof -
  have "parentsBelow (blockTab (modifyBlock b f s)) = parentsBelow (blockTab s)"
    "parentsOk (blockTab (modifyBlock b f s)) = parentsOk (blockTab s)"
    using assms(2) by (auto simp: parentsBelow_def parentsOk_def modifyBlock_nth)
  then show ?thesis
    using assms(1) unfolding parentsInv_def by simp
qed

lemma modifyBlock_mapsEmpty:
  assumes "mapsEmpty s"
    and "\<And>x. blockVarNoToVarNoMap (f x) = blockVarNoToVarNoMap x"
        "\<And>x. firstVarRefNo (f x) = firstVarRefNo x"
  shows "mapsEmpty (modifyBlock b f s)"
  using assms unfolding mapsEmpty_def
  by (simp add: modifyBlock_nth)

lemma modifyBlock_rootInv:
  assumes "rootInv s"
    and "\<And>x. blockName (f x) = blockName x" "\<And>x. dummy (f x) = dummy x"
    and "\<And>x. parentBlockNo (f x) = parentBlockNo x"
    and "tPosContentsBegin (f (blockTab s ! 0)) = 0 \<or> b \<noteq> 0"
  shows "rootInv (modifyBlock b f s)"
  using assms unfolding rootInv_def
  by (auto simp: modifyBlock_nth)

lemma modifyBlock_rootInv_keep:
  assumes "rootInv s"
    and "\<And>x. blockName (f x) = blockName x" "\<And>x. dummy (f x) = dummy x"
    and "\<And>x. parentBlockNo (f x) = parentBlockNo x"
    and "\<And>x. tPosContentsBegin (f x) = tPosContentsBegin x"
  shows "rootInv (modifyBlock b f s)"
  using assms unfolding rootInv_def
  by (auto simp: modifyBlock_nth)

lemma registerBlock_mapsEmpty:
  "mapsEmpty s \<Longrightarrow> mapsEmpty (snd (registerBlock name s))"
  unfolding mapsEmpty_def
  by (auto simp: registerBlock_blockTab nth_append less_Suc_eq)

lemma registerBlock_rootInv:
  "rootInv s \<Longrightarrow> rootInv (snd (registerBlock name s))"
  unfolding rootInv_def
  by (auto simp: registerBlock_blockTab nth_append less_Suc_eq)

lemma registerBlock_varsInv [simp]: "varsInv (snd (registerBlock name s)) = varsInv s"
  by (simp add: varsInv_def)

lemma modifyBlock_varsInv [simp]: "varsInv (modifyBlock b f s) = varsInv s"
  by (simp add: varsInv_def)

lemma registerBlock_cmdInv:
  "cmdInv s \<Longrightarrow> cmdInv (snd (registerBlock name s))"
  unfolding cmdInv_def
  by (simp add: registerBlock_namesInv registerBlock_parentsInv registerBlock_mapsEmpty
      registerBlock_rootInv)

lemma excludeTemplateRange_cmdInv:
  assumes "cmdInv s"
  shows "cmdInv (excludeTemplateRange b e s)"
proof (cases "blockTab s \<noteq> [] \<and> dummy (last (blockTab s)) \<and> tPosEnd (last (blockTab s)) = b")
  case True
  then have ne0: "length (blockTab s) - 1 \<noteq> 0"
    using assms unfolding cmdInv_def rootInv_def
    by (cases "blockTab s" rule: rev_cases) (auto simp: nth_append)
  have "excludeTemplateRange b e s =
        modifyBlock (length (blockTab s) - 1)
             (\<lambda>btr. btr\<lparr> tPosContentsEnd := e, tPosEnd := e \<rparr>) s"
    using True by (simp add: excludeTemplateRange_def)
  then show ?thesis
    using assms ne0 unfolding cmdInv_def
    by (simp add: modifyBlock_namesInv modifyBlock_parentsInv modifyBlock_mapsEmpty
        modifyBlock_rootInv)
next
  case False
  let ?s1 = "snd (registerBlock None s)"
  let ?f = "\<lambda>btr. btr\<lparr> tPosBegin := b, tPosContentsBegin := b,
                            tPosContentsEnd := e, tPosEnd := e,
                            definitionIsOpen := False, dummy := True \<rparr>"
  have eq: "excludeTemplateRange b e s = modifyBlock (length (blockTab s)) ?f ?s1"
    using False by (auto simp add: excludeTemplateRange_def split_beta)
  have inv1: "cmdInv ?s1" using assms by (rule registerBlock_cmdInv)
  have root: "rootInv (modifyBlock (length (blockTab s)) ?f ?s1)"
    using inv1 assms unfolding cmdInv_def rootInv_def
    by (auto simp: modifyBlock_nth registerBlock_blockTab nth_append)
  show ?thesis
    unfolding eq using inv1 root unfolding cmdInv_def
    by (simp add: modifyBlock_namesInv modifyBlock_parentsInv modifyBlock_mapsEmpty)
qed

lemma cmdInv_update [simp]:
  "cmdInv (s\<lparr>condLevel := cl\<rparr>) = cmdInv s"
  "cmdInv (s\<lparr>condEnabled := ce\<rparr>) = cmdInv s"
  "cmdInv (s\<lparr>condPassed := cp\<rparr>) = cmdInv s"
  "cmdInv (s\<lparr>templateText := tt\<rparr>) = cmdInv s"
  "cmdInv (s\<lparr>resumeCmdParsingFromStart := r\<rparr>) = cmdInv s"
  by (simp_all add: cmdInv_def namesInv_def parentsInv_def rootInv_def mapsEmpty_def
      varsInv_def lookupBlockName_def)

lemma conditionalExclude_cmdInv:
  "cmdInv s \<Longrightarrow> cmdInv (snd (conditionalExclude b e s))"
  by (simp add: conditionalExclude_def excludeTemplateRange_cmdInv)

lemma processIfCmd_cmdInv:
  "cmdInv s \<Longrightarrow> processIfCmd pp parms b e s = Inr s' \<Longrightarrow> cmdInv s'"
  by (auto simp: processIfCmd_def Let_def excludeTemplateRange_cmdInv
      split: if_splits sum.splits)

lemma processElseIfCmd_cmdInv:
  "cmdInv s \<Longrightarrow> processElseIfCmd pp parms b e s = Inr s' \<Longrightarrow> cmdInv s'"
  by (auto simp: processElseIfCmd_def Let_def excludeTemplateRange_cmdInv
      split: if_splits sum.splits)

lemma processElseCmd_cmdInv:
  "cmdInv s \<Longrightarrow> processElseCmd parms b e s = Inr s' \<Longrightarrow> cmdInv s'"
  by (auto simp: processElseCmd_def Let_def excludeTemplateRange_cmdInv
      split: if_splits sum.splits)

lemma processEndIfCmd_cmdInv:
  "cmdInv s \<Longrightarrow> processEndIfCmd parms b e s = Inr s' \<Longrightarrow> cmdInv s'"
  by (auto simp: processEndIfCmd_def Let_def excludeTemplateRange_cmdInv
      split: if_splits sum.splits)

lemma insertSubTemplate_cmdInv:
  "cmdInv s \<Longrightarrow> insertSubTemplate pp name b e s = Inr s' \<Longrightarrow> cmdInv s'"
  by (auto simp: insertSubTemplate_def split: option.splits if_splits)

lemma processIncludeCmd_cmdInv:
  "cmdInv s \<Longrightarrow> processIncludeCmd pp parms b e s = Inr s' \<Longrightarrow> cmdInv s'"
  using conditionalExclude_cmdInv [of s b e]
  by (auto simp: processIncludeCmd_def Let_def split_beta
      split: if_splits dest: insertSubTemplate_cmdInv)

lemma toInt16_id: "0 \<le> n \<Longrightarrow> n < 32768 \<Longrightarrow> toInt16 n = n"
  by (simp add: toInt16_def)

lemma toInt16_le: "0 \<le> n \<Longrightarrow> toInt16 n \<le> n"
proof -
  assume "0 \<le> n"
  have "(n + 32768) mod 65536 \<le> n + 32768"
    using \<open>0 \<le> n\<close> by (intro zmod_le_nonneg_dividend) simp
  then show ?thesis by (simp add: toInt16_def)
qed

lemma beginBlock_core_cmdInv:
  assumes inv: "cmdInv s1"
    and le: "currentNestingLevel s1 + 1 \<le> 30"
  shows "cmdInv ((modifyBlock (length (blockTab s1))
                    (\<lambda>btr. btr\<lparr> tPosBegin := b, tPosContentsBegin := e \<rparr>)
                    (snd (registerBlock (Some name) s1)))
                 \<lparr> openBlocksTab := int16Set (openBlocksTab s1) (currentNestingLevel s1)
                                      (int (length (blockTab s1))),
                   currentNestingLevel := currentNestingLevel s1 + 1 \<rparr>)"
    (is "cmdInv ?s4")
proof -
  let ?s2 = "snd (registerBlock (Some name) s1)"
  let ?f = "\<lambda>btr. btr\<lparr> tPosBegin := b, tPosContentsBegin := e \<rparr>"
  let ?s3 = "modifyBlock (length (blockTab s1)) ?f ?s2"
  have inv2: "cmdInv ?s2" using inv by (rule registerBlock_cmdInv)
  have ne: "blockTab s1 \<noteq> []" using inv by (simp add: cmdInv_def rootInv_def)
  have names3: "namesInv ?s3" using inv2 by (simp add: cmdInv_def modifyBlock_namesInv)
  have maps3: "mapsEmpty ?s3" using inv2 by (simp add: cmdInv_def modifyBlock_mapsEmpty)
  have root3: "rootInv ?s3"
    using inv2 ne by (intro modifyBlock_rootInv) (simp_all add: cmdInv_def)
  have par3: "parentsInv ?s3" using inv2 by (simp add: cmdInv_def modifyBlock_parentsInv)
  have names4: "namesInv ?s4" using names3 by (simp add: namesInv_def lookupBlockName_def)
  have maps4: "mapsEmpty ?s4" using maps3 by (simp add: mapsEmpty_def)
  have root4: "rootInv ?s4" using root3 by (simp add: rootInv_def)
  have par4: "parentsInv ?s4"
  proof -
    let ?c = "currentNestingLevel s1" and ?n = "length (blockTab s1)"
    from par3 have len: "length (openBlocksTab s1) = 31"
      and open_lt: "\<And>i. 0 \<le> i \<Longrightarrow> i < ?c \<Longrightarrow> openBlocksTab s1 ! nat i < int (Suc ?n)"
      and below: "parentsBelow (blockTab ?s3)"
      and small: "Suc ?n \<le> 32768 \<Longrightarrow>
            (\<forall>i. 0 \<le> i \<and> i < ?c \<longrightarrow> 0 \<le> openBlocksTab s1 ! nat i) \<and> parentsOk (blockTab ?s3)"
      unfolding parentsInv_def by auto
    have nth: "int16Set (openBlocksTab s1) ?c (int ?n) ! nat i =
        (if i = ?c then toInt16 (int ?n) else openBlocksTab s1 ! nat i)"
      if "0 \<le> i" "i \<le> ?c" for i
      using that le len by (auto simp: int16Set_def nth_list_update)
    have c3: "openBlocksTab ?s4 ! nat i < int (length (blockTab ?s4))"
      if "0 \<le> i" "i < currentNestingLevel ?s4" for i
      using that nth [of i] open_lt [of i] toInt16_le [of "int ?n"] by (auto split: if_splits)
    have c5: "(\<forall>i. 0 \<le> i \<and> i < currentNestingLevel ?s4 \<longrightarrow> 0 \<le> openBlocksTab ?s4 ! nat i)
            \<and> parentsOk (blockTab ?s4)"
      if "length (blockTab ?s4) \<le> 32768"
    proof -
      from that have sm: "Suc ?n \<le> 32768" by simp
      from small [OF sm] have nn: "\<And>i. 0 \<le> i \<Longrightarrow> i < ?c \<Longrightarrow> 0 \<le> openBlocksTab s1 ! nat i"
        and pk: "parentsOk (blockTab ?s3)" by auto
      have "toInt16 (int ?n) = int ?n" using sm by (intro toInt16_id) simp_all
      then have "0 \<le> openBlocksTab ?s4 ! nat i" if "0 \<le> i" "i < currentNestingLevel ?s4" for i
        using that nth [of i] nn [of i] by (auto split: if_splits)
      then show ?thesis using pk by simp
    qed
    show ?thesis
      unfolding parentsInv_def using le len below c3 c5 by (simp add: int16Set_def)
  qed
  have vars4: "varsInv ?s4" using inv2 by (simp add: cmdInv_def varsInv_def)
  show ?thesis using names4 maps4 root4 par4 vars4 by (simp add: cmdInv_def)
qed

lemma processBeginBlockCmd_cmdInv:
  assumes "cmdInv s" and "processBeginBlockCmd parms b e s = Inr s'"
  shows "cmdInv s'"
proof -
  let ?s1 = "snd (conditionalExclude b e s)"
  have inv1: "cmdInv ?s1" using assms(1) by (rule conditionalExclude_cmdInv)
  show ?thesis
    using assms(2) inv1 beginBlock_core_cmdInv [OF inv1]
    by (auto simp: processBeginBlockCmd_def Let_def split_beta maxNestingLevel_def
        split: if_splits)
qed

lemma processEndBlockCmd_cmdInv:
  assumes "cmdInv s" and "processEndBlockCmd parms b e s = Inr s'"
  shows "cmdInv s'"
proof -
  let ?s1 = "snd (conditionalExclude b e s)"
  have inv1: "cmdInv ?s1" using assms(1) by (rule conditionalExclude_cmdInv)
  have dec: "cmdInv (?s1\<lparr>currentNestingLevel := currentNestingLevel ?s1 - 1\<rparr>)"
    using inv1 unfolding cmdInv_def namesInv_def parentsInv_def rootInv_def mapsEmpty_def
      varsInv_def
    by (auto simp: lookupBlockName_def)
  have "cmdInv (modifyBlock k (\<lambda>btr. btr\<lparr> tPosContentsEnd := b, tPosEnd := e,
                                            definitionIsOpen := False \<rparr>)
                  (?s1\<lparr>currentNestingLevel := currentNestingLevel ?s1 - 1\<rparr>))" for k
    using dec unfolding cmdInv_def
    by (simp add: modifyBlock_namesInv modifyBlock_parentsInv modifyBlock_mapsEmpty
        modifyBlock_rootInv_keep)
  then show ?thesis
    using assms(2) inv1
    by (auto simp: processEndBlockCmd_def Let_def split_beta split: if_splits)
qed

lemma recognized_Inr: "recognized r = Inr (ok, s') \<longleftrightarrow> ok \<and> r = Inr s'"
  by (auto simp: recognized_def split: sum.splits)

lemma processTemplateCommand_cmdInv:
  assumes "cmdInv s" and "processTemplateCommand pp cmdLine b e s = Inr (ok, s')"
  shows "cmdInv s'"
  using assms
  by (auto simp: processTemplateCommand_def Let_def recognized_Inr
      split: if_splits
      dest: processBeginBlockCmd_cmdInv processEndBlockCmd_cmdInv processIncludeCmd_cmdInv
        processIfCmd_cmdInv processElseIfCmd_cmdInv processElseCmd_cmdInv processEndIfCmd_cmdInv)

lemma processShortFormTemplateCommand_cmdInv:
  assumes "cmdInv s" and "processShortFormTemplateCommand pp cmdLine b e s = Inr (ok, s')"
  shows "cmdInv s'"
  using assms
  by (auto simp: processShortFormTemplateCommand_def Let_def recognized_Inr
      split: if_splits
      dest: processIfCmd_cmdInv processElseIfCmd_cmdInv processElseCmd_cmdInv processEndIfCmd_cmdInv)

lemma parseTemplateCommandsStep_cmdInv:
  assumes "cmdInv s"
  shows "parseTemplateCommandsStep pp p s = Inr (Break s') \<Longrightarrow> cmdInv s'"
    and "parseTemplateCommandsStep pp p s = Inr (Continue p' s') \<Longrightarrow> cmdInv s'"
  using assms conditionalExclude_cmdInv
  by (auto simp: parseTemplateCommandsStep_def Let_def split_beta
      split: if_splits sum.splits prod.splits
      dest!: processTemplateCommand_cmdInv [rotated] processShortFormTemplateCommand_cmdInv [rotated])

lemma parseTemplateCommands_cmdInv:
  "parseTemplateCommands pp fuel p s = Some (Inr s') \<Longrightarrow> cmdInv s \<Longrightarrow> cmdInv s'"
proof (induction fuel arbitrary: p s)
  case 0
  then show ?case by simp
next
  case (Suc fuel)
  then show ?case
    by (auto split: sum.splits cmdStep.splits dest: parseTemplateCommandsStep_cmdInv)
qed

lemma cmdInv_beginMainBlock: "cmdInv (beginMainBlock (initParsing mainText))"
  unfolding cmdInv_def namesInv_def parentsInv_def parentsOk_def parentsBelow_def rootInv_def
    mapsEmpty_def varsInv_def
  by (simp add: beginMainBlock_def initParsing_def registerBlock_def modifyBlock_def Let_def
      lookupBlockName_def int16Set_def maxNestingLevel_def toInt16_def)

lemma endMainBlock_cmdInv:
  assumes "cmdInv s" "endMainBlock s = Inr s'"
  shows "cmdInv s' \<and> rootSpan s'"
proof -
  let ?f = "\<lambda>btr. btr\<lparr> tPosContentsEnd := length (templateText s),
                            tPosEnd := length (templateText s), definitionIsOpen := False \<rparr>"
  have s': "s' = (modifyBlock 0 ?f s)\<lparr> currentNestingLevel := currentNestingLevel s - 1 \<rparr>"
    and ne: "blockTab s \<noteq> []"
    using assms(2) by (auto simp: endMainBlock_def split: if_splits)
  have "cmdInv (modifyBlock 0 ?f s)"
    using assms(1) unfolding cmdInv_def
    by (simp add: modifyBlock_namesInv modifyBlock_parentsInv modifyBlock_mapsEmpty
        modifyBlock_rootInv_keep)
  then have "cmdInv s'"
    unfolding s' cmdInv_def namesInv_def parentsInv_def rootInv_def mapsEmpty_def varsInv_def
    by (auto simp: lookupBlockName_def)
  moreover have "rootSpan s'"
    using ne unfolding s' rootSpan_def by (simp add: modifyBlock_def)
  ultimately show ?thesis by simp
qed

lemma checkBlockDefinitionsComplete_Inr:
  "checkBlockDefinitionsComplete s = Inr s' \<Longrightarrow> s' = s"
  by (auto simp: checkBlockDefinitionsComplete_def split: option.splits if_splits)

lemma lookupVariableName_varsInv:
  "varsInv t \<Longrightarrow> lookupVariableName t n = - 1 \<longleftrightarrow> n \<notin> set (varTab t)"
proof -
  assume inv: "varsInv t"
  then have iff: "varNameToNoMap t n = None \<longleftrightarrow> n \<notin> set (varTab t)"
    unfolding varsInv_def by blast
  show ?thesis
  proof (cases "varNameToNoMap t n")
    case None
    with iff show ?thesis by (simp add: lookupVariableName_def)
  next
    case (Some v)
    with iff show ?thesis by (simp add: lookupVariableName_def)
  qed
qed

lemma registerVariableReference_frame [simp]:
  "blockTab (registerVariableReference n b e s) = blockTab s"
  "blockNameToNoMap (registerVariableReference n b e s) = blockNameToNoMap s"
  "templateText (registerVariableReference n b e s) = templateText s"
  "currentNestingLevel (registerVariableReference n b e s) = currentNestingLevel s"
  "openBlocksTab (registerVariableReference n b e s) = openBlocksTab s"
  by (simp_all add: registerVariableReference_def registerVariable_def Let_def split_beta)

lemma registerVariableReference_varsInv:
  assumes "varsInv s"
  shows "varsInv (registerVariableReference n b e s)"
proof (cases "lookupVariableName s n = - 1")
  case True
  then have notin: "n \<notin> set (varTab s)" using assms by (simp add: lookupVariableName_varsInv)
  show ?thesis
    using assms True notin unfolding varsInv_def
    by (auto simp: registerVariableReference_def registerVariable_def Let_def nth_append
        less_Suc_eq split: option.splits)
next
  case False
  then show ?thesis
    using assms unfolding varsInv_def
    by (auto simp: registerVariableReference_def Let_def lookupVariableName_def
        split: option.splits)
qed

lemma registerVariableReference_strip:
  "map stripBlocks (varRefTab (registerVariableReference n b e s)) =
     map stripBlocks (varRefTab s) @
       [\<lparr> varNo = nat (lookupVariableName (registerVariableReference n b e s) n),
          vrTPosBegin = b, vrTPosEnd = e, vrBlockNo = - 1, blockVarNo = - 1 \<rparr>]"
  by (auto simp: registerVariableReference_def registerVariable_def Let_def split_beta
      stripBlocks_def lookupVariableName_def)

lemma parseTemplateVariables_inv:
  "parseTemplateVariables fuel p s = Some (Inr s') \<Longrightarrow> varsInv s \<Longrightarrow>
     varsInv s' \<and> blockTab s' = blockTab s \<and> blockNameToNoMap s' = blockNameToNoMap s
     \<and> templateText s' = templateText s \<and> currentNestingLevel s' = currentNestingLevel s
     \<and> openBlocksTab s' = openBlocksTab s"
proof (induction fuel arbitrary: p s)
  case 0
  then show ?case by simp
next
  case (Suc fuel)
  show ?case
  proof (cases "indexOf (templateText s) ''${'' p = - 1")
    case True
    with Suc.prems show ?thesis by simp
  next
    case False
    let ?p0 = "nat (indexOf (templateText s) ''${'' p)"
    let ?p1 = "indexOf (templateText s) ''}'' ?p0"
    let ?name = "trim (substring (templateText s) (?p0 + 2) (nat ?p1 + 1 - 1))"
    let ?s1 = "registerVariableReference ?name ?p0 (nat ?p1 + 1) s"
    from Suc.prems(1) False have rec: "parseTemplateVariables fuel (nat ?p1 + 1) ?s1 = Some (Inr s')"
      by (simp add: Let_def split: if_splits)
    have "varsInv ?s1" using Suc.prems(2) by (rule registerVariableReference_varsInv)
    from Suc.IH [OF rec this] show ?thesis by simp
  qed
qed

lemma associateLoop_Suc:
  "associateLoop (Suc fuel) k a nx s =
     (if \<not> k < length (varRefTab s) then Some (Inr s)
      else if \<not> (0 \<le> a \<and> nat a < length (blockTab s)) then Some (Inl TypeError)
      else if vrTPosBegin (varRefTab s ! k) \<ge> tPosEnd (blockTab s ! nat a)
      then associateLoop fuel k (parentBlockNo (blockTab s ! nat a)) nx s
      else if nx < length (blockTab s) \<and> vrTPosBegin (varRefTab s ! k) \<ge> tPosBegin (blockTab s ! nx)
      then associateLoop fuel k (int nx) (nx + 1) s
      else if \<not> vrTPosBegin (varRefTab s ! k) \<ge> tPosBegin (blockTab s ! nat a)
      then Some (Inl assertionFailed)
      else associateLoop fuel (k + 1) a nx (assign k (nat a) s))"
  by (simp add: Let_def assign_def)

declare associateLoop.simps(2) [simp del]

lemma assign_frame:
  assumes "a < length (blockTab s)" "k < length (varRefTab s)"
  shows "map stripVars (blockTab (assign k a s)) = map stripVars (blockTab s)"
    and "map stripBlocks (varRefTab (assign k a s)) = map stripBlocks (varRefTab s)"
    and "templateText (assign k a s) = templateText s"
    and "varTab (assign k a s) = varTab s"
    and "varNameToNoMap (assign k a s) = varNameToNoMap s"
    and "blockNameToNoMap (assign k a s) = blockNameToNoMap s"
    and "length (varRefTab (assign k a s)) = length (varRefTab s)"
    and "length (blockTab (assign k a s)) = length (blockTab s)"
  using assms
  by (simp_all add: assign_def map_update list_update_same_conv stripVars_def stripBlocks_def)

lemma assign_assocInv:
  assumes a: "a < length (blockTab s)" and k: "k < length (varRefTab s)"
    and inv: "assocInv s k"
  shows "assocInv (assign k a s) (Suc k)"
proof -
  let ?s' = "assign k a s"
  have bt: "blockTab ?s' ! b =
      (if b = a then (blockTab s ! a)
             \<lparr> blockVarNoToVarNoMap := blockVarNoToVarNoMap (blockTab s ! a) @ [varNo (varRefTab s ! k)],
               firstVarRefNo := (if firstVarRefNo (blockTab s ! a) = - 1 then int k
                                 else firstVarRefNo (blockTab s ! a)) \<rparr>
       else blockTab s ! b)" if "b < length (blockTab s)" for b
    using that by (simp add: assign_def nth_list_update)
  have vr: "varRefTab ?s' ! i =
      (if i = k then (varRefTab s ! k)
             \<lparr> vrBlockNo := int a,
               blockVarNo := int (length (blockVarNoToVarNoMap (blockTab s ! a))) \<rparr>
       else varRefTab s ! i)" if "i < length (varRefTab s)" for i
    using that by (simp add: assign_def nth_list_update)
  have len: "length (blockTab ?s') = length (blockTab s)" "length (varRefTab ?s') = length (varRefTab s)"
    by (simp_all add: assign_def)
  have c1: "\<exists>i < Suc k. i < length (varRefTab ?s') \<and> varNo (varRefTab ?s' ! i) = v
                  \<and> vrBlockNo (varRefTab ?s' ! i) = int b"
    if b: "b < length (blockTab ?s')" and v: "v \<in> set (blockVarNoToVarNoMap (blockTab ?s' ! b))" for b v
  proof (cases "b = a \<and> v = varNo (varRefTab s ! k)")
    case True
    then show ?thesis using k by (intro exI [of _ k]) (simp add: vr len)
  next
    case False
    with b v have "v \<in> set (blockVarNoToVarNoMap (blockTab s ! b))"
      by (auto simp: bt len split: if_splits)
    with inv b obtain i where "i < k" "i < length (varRefTab s)" "varNo (varRefTab s ! i) = v"
      "vrBlockNo (varRefTab s ! i) = int b"
      unfolding assocInv_def len by blast
    then show ?thesis by (intro exI [of _ i]) (simp add: vr len)
  qed
  have c2: "blockVarNoToVarNoMap (blockTab ?s' ! b) = []"
    if "b < length (blockTab ?s')" "firstVarRefNo (blockTab ?s' ! b) = - 1" for b
    using that inv unfolding assocInv_def len
    by (auto simp: bt split: if_splits)
  have c3: "0 \<le> vrBlockNo (varRefTab ?s' ! i)
            \<and> nat (vrBlockNo (varRefTab ?s' ! i)) < length (blockTab ?s')
            \<and> 0 \<le> blockVarNo (varRefTab ?s' ! i)
            \<and> nat (blockVarNo (varRefTab ?s' ! i))
                  < length (blockVarNoToVarNoMap (blockTab ?s' ! nat (vrBlockNo (varRefTab ?s' ! i))))
            \<and> blockVarNoToVarNoMap (blockTab ?s' ! nat (vrBlockNo (varRefTab ?s' ! i)))
                  ! nat (blockVarNo (varRefTab ?s' ! i)) = varNo (varRefTab ?s' ! i)"
    if "i < Suc k" "i < length (varRefTab ?s')" for i
  proof (cases "i = k")
    case True
    then show ?thesis using a k by (simp add: vr bt len)
  next
    case False
    with that have ik: "i < k" "i < length (varRefTab s)" by (simp_all add: len)
    with inv have old: "0 \<le> vrBlockNo (varRefTab s ! i)"
        "nat (vrBlockNo (varRefTab s ! i)) < length (blockTab s)"
        "0 \<le> blockVarNo (varRefTab s ! i)"
        "nat (blockVarNo (varRefTab s ! i))
                  < length (blockVarNoToVarNoMap (blockTab s ! nat (vrBlockNo (varRefTab s ! i))))"
        "blockVarNoToVarNoMap (blockTab s ! nat (vrBlockNo (varRefTab s ! i)))
                  ! nat (blockVarNo (varRefTab s ! i)) = varNo (varRefTab s ! i)"
      unfolding assocInv_def by blast+
    then show ?thesis using False ik by (auto simp add: vr bt len nth_append)
  qed
  show ?thesis
    unfolding assocInv_def using c1 c2 c3 by blast
qed

lemma associateLoop_inv:
  "associateLoop fuel k a nx s = Some (Inr s') \<Longrightarrow> assocInv s k \<Longrightarrow> k \<le> length (varRefTab s) \<Longrightarrow>
     assocInv s' (length (varRefTab s'))
     \<and> map stripVars (blockTab s') = map stripVars (blockTab s)
     \<and> map stripBlocks (varRefTab s') = map stripBlocks (varRefTab s)
     \<and> templateText s' = templateText s \<and> varTab s' = varTab s
     \<and> varNameToNoMap s' = varNameToNoMap s \<and> blockNameToNoMap s' = blockNameToNoMap s"
proof (induction fuel arbitrary: k a nx s)
  case 0
  then show ?case by simp
next
  case (Suc fuel)
  show ?case
  proof (cases "k < length (varRefTab s)")
    case False
    with Suc.prems have "s' = s" "k = length (varRefTab s)" by (simp_all add: associateLoop_Suc)
    with Suc.prems show ?thesis by simp
  next
    case k: True
    show ?thesis
    proof (cases "0 \<le> a \<and> nat a < length (blockTab s)")
      case False
      with Suc.prems k show ?thesis by (simp add: associateLoop_Suc)
    next
      case a: True
      consider (up) "associateLoop fuel k (parentBlockNo (blockTab s ! nat a)) nx s = Some (Inr s')"
        | (down) "associateLoop fuel k (int nx) (nx + 1) s = Some (Inr s')"
        | (asg) "associateLoop fuel (k + 1) a nx (assign k (nat a) s) = Some (Inr s')"
        using Suc.prems(1) k a by (auto simp: associateLoop_Suc split: if_splits)
      then show ?thesis
      proof cases
        case up
        from Suc.IH [OF up Suc.prems(2,3)] show ?thesis .
      next
        case down
        from Suc.IH [OF down Suc.prems(2,3)] show ?thesis .
      next
        case asg
        have inv': "assocInv (assign k (nat a) s) (k + 1)"
          using assign_assocInv [of "nat a" s k] a k Suc.prems(2) by simp
        have "k + 1 \<le> length (varRefTab (assign k (nat a) s))"
          using k a by (simp add: assign_frame)
        from Suc.IH [OF asg inv' this] show ?thesis
          using a k by (simp add: assign_frame)
      qed
    qed
  qed
qed

lemma stripVars_fields:
  assumes "map stripVars bt' = map stripVars bt"
  shows "length bt' = length bt"
    and "b < length bt \<Longrightarrow> blockName (bt' ! b) = blockName (bt ! b)"
    and "b < length bt \<Longrightarrow> nextWithSameName (bt' ! b) = nextWithSameName (bt ! b)"
    and "b < length bt \<Longrightarrow> parentBlockNo (bt' ! b) = parentBlockNo (bt ! b)"
    and "b < length bt \<Longrightarrow> dummy (bt' ! b) = dummy (bt ! b)"
    and "b < length bt \<Longrightarrow> tPosBegin (bt' ! b) = tPosBegin (bt ! b)"
    and "b < length bt \<Longrightarrow> tPosContentsBegin (bt' ! b) = tPosContentsBegin (bt ! b)"
    and "b < length bt \<Longrightarrow> tPosContentsEnd (bt' ! b) = tPosContentsEnd (bt ! b)"
    and "b < length bt \<Longrightarrow> tPosEnd (bt' ! b) = tPosEnd (bt ! b)"
proof -
  show len: "length bt' = length bt" using assms by (rule map_eq_imp_length_eq)
  have eq: "stripVars (bt' ! b) = stripVars (bt ! b)" if "b < length bt" for b
    using that len nth_map [of b bt' stripVars] nth_map [of b bt stripVars] assms by simp
  have f: "blockName x = blockName (stripVars x)" "nextWithSameName x = nextWithSameName (stripVars x)"
    "parentBlockNo x = parentBlockNo (stripVars x)" "dummy x = dummy (stripVars x)"
    "tPosBegin x = tPosBegin (stripVars x)" "tPosContentsBegin x = tPosContentsBegin (stripVars x)"
    "tPosContentsEnd x = tPosContentsEnd (stripVars x)" "tPosEnd x = tPosEnd (stripVars x)" for x
    by (simp_all add: stripVars_def)
  show "b < length bt \<Longrightarrow> blockName (bt' ! b) = blockName (bt ! b)"
    using eq [of b] f(1) [of "bt' ! b"] f(1) [of "bt ! b"] by simp
  show "b < length bt \<Longrightarrow> nextWithSameName (bt' ! b) = nextWithSameName (bt ! b)"
    using eq [of b] f(2) [of "bt' ! b"] f(2) [of "bt ! b"] by simp
  show "b < length bt \<Longrightarrow> parentBlockNo (bt' ! b) = parentBlockNo (bt ! b)"
    using eq [of b] f(3) [of "bt' ! b"] f(3) [of "bt ! b"] by simp
  show "b < length bt \<Longrightarrow> dummy (bt' ! b) = dummy (bt ! b)"
    using eq [of b] f(4) [of "bt' ! b"] f(4) [of "bt ! b"] by simp
  show "b < length bt \<Longrightarrow> tPosBegin (bt' ! b) = tPosBegin (bt ! b)"
    using eq [of b] f(5) [of "bt' ! b"] f(5) [of "bt ! b"] by simp
  show "b < length bt \<Longrightarrow> tPosContentsBegin (bt' ! b) = tPosContentsBegin (bt ! b)"
    using eq [of b] f(6) [of "bt' ! b"] f(6) [of "bt ! b"] by simp
  show "b < length bt \<Longrightarrow> tPosContentsEnd (bt' ! b) = tPosContentsEnd (bt ! b)"
    using eq [of b] f(7) [of "bt' ! b"] f(7) [of "bt ! b"] by simp
  show "b < length bt \<Longrightarrow> tPosEnd (bt' ! b) = tPosEnd (bt ! b)"
    using eq [of b] f(8) [of "bt' ! b"] f(8) [of "bt ! b"] by simp
qed

lemma stripBlocks_fields:
  assumes "map stripBlocks vr' = map stripBlocks vr"
  shows "length vr' = length vr"
    and "i < length vr \<Longrightarrow> varNo (vr' ! i) = varNo (vr ! i)"
    and "i < length vr \<Longrightarrow> vrTPosBegin (vr' ! i) = vrTPosBegin (vr ! i)"
    and "i < length vr \<Longrightarrow> vrTPosEnd (vr' ! i) = vrTPosEnd (vr ! i)"
proof -
  show len: "length vr' = length vr" using assms by (rule map_eq_imp_length_eq)
  have eq: "stripBlocks (vr' ! i) = stripBlocks (vr ! i)" if "i < length vr" for i
    using that len nth_map [of i vr' stripBlocks] nth_map [of i vr stripBlocks] assms by simp
  have f: "varNo x = varNo (stripBlocks x)" "vrTPosBegin x = vrTPosBegin (stripBlocks x)"
    "vrTPosEnd x = vrTPosEnd (stripBlocks x)" for x
    by (simp_all add: stripBlocks_def)
  show "i < length vr \<Longrightarrow> varNo (vr' ! i) = varNo (vr ! i)"
    using eq [of i] f(1) [of "vr' ! i"] f(1) [of "vr ! i"] by simp
  show "i < length vr \<Longrightarrow> vrTPosBegin (vr' ! i) = vrTPosBegin (vr ! i)"
    using eq [of i] f(2) [of "vr' ! i"] f(2) [of "vr ! i"] by simp
  show "i < length vr \<Longrightarrow> vrTPosEnd (vr' ! i) = vrTPosEnd (vr ! i)"
    using eq [of i] f(3) [of "vr' ! i"] f(3) [of "vr ! i"] by simp
qed

lemma namesInv_transfer:
  assumes "namesInv s" "map stripVars (blockTab t) = map stripVars (blockTab s)"
    "blockNameToNoMap t = blockNameToNoMap s"
  shows "namesInv t"
proof -
  note sf = stripVars_fields [OF assms(2)]
  have pn: "prevNamed (blockTab t) n k = prevNamed (blockTab s) n k" if "k \<le> length (blockTab s)" for n k
    using that by (intro prevNamed_cong) (simp add: sf)
  have lk: "lookupBlockName t n = lookupBlockName s n" for n
    by (simp add: lookupBlockName_def assms(3))
  show ?thesis
    using assms(1) unfolding namesInv_def
    by (simp add: sf pn lk)
qed

lemma rootInv_transfer:
  assumes "rootInv s" "map stripVars (blockTab t) = map stripVars (blockTab s)"
  shows "rootInv t"
proof -
  note sf = stripVars_fields [OF assms(2)]
  have ne: "blockTab s \<noteq> []" using assms(1) by (simp add: rootInv_def)
  then have "blockTab t \<noteq> []" using sf(1) by auto
  then show ?thesis
    using assms(1) ne unfolding rootInv_def
    by (simp add: sf)
qed

lemma parentsOk_transfer:
  assumes "parentsOk bt" "map stripVars bt' = map stripVars bt"
  shows "parentsOk bt'"
  using assms(1) stripVars_fields [OF assms(2)] unfolding parentsOk_def by simp

lemma parentsBelow_transfer:
  assumes "parentsBelow bt" "map stripVars bt' = map stripVars bt"
  shows "parentsBelow bt'"
  using assms(1) stripVars_fields [OF assms(2)] unfolding parentsBelow_def by simp

lemma varsInv_transfer:
  assumes "varsInv s" "map stripBlocks (varRefTab t) = map stripBlocks (varRefTab s)"
    "varTab t = varTab s" "varNameToNoMap t = varNameToNoMap s"
  shows "varsInv t"
proof -
  note sf = stripBlocks_fields [OF assms(2)]
  have "varNo r < length (varTab s)" if "r \<in> set (varRefTab t)" for r
  proof -
    from that obtain i where i: "i < length (varRefTab t)" "varRefTab t ! i = r"
      by (auto simp: in_set_conv_nth)
    then have "varNo r = varNo (varRefTab s ! i)" using sf by auto
    moreover have "varRefTab s ! i \<in> set (varRefTab s)" using i sf(1) by simp
    ultimately show ?thesis using assms(1) unfolding varsInv_def by auto
  qed
  then show ?thesis
    using assms(1) unfolding varsInv_def by (simp add: assms(3,4))
qed

lemma varsInv_initial:
  "varNameToNoMap s = Map.empty \<Longrightarrow> varTab s = [] \<Longrightarrow> varRefTab s = [] \<Longrightarrow> varsInv s"
  by (simp add: varsInv_def)

lemma cmd_frame_vars:
  "varTab (snd (registerBlock name s)) = varTab s"
  by simp

lemma parserResult_simps [simp]:
  "templateText (parserResult s) = templateText s"
  "varTab (parserResult s) = varTab s"
  "varRefTab (parserResult s) = varRefTab s"
  "blockTab (parserResult s) = blockTab s"
  "varNameToNoMap (parserResult s) = varNameToNoMap s"
  "blockNameToNoMap (parserResult s) = blockNameToNoMap s"
  by (simp_all add: parserResult_def)

lemma parseTemplateScan_inv:
  assumes "parseTemplateScan pp fuel = Some (Inr s)"
  shows "namesInv s \<and> rootInv s \<and> rootSpan s \<and> varsInv s \<and> mapsEmpty s
         \<and> (length (blockTab s) \<le> 32768 \<longrightarrow> parentsOk (blockTab s))
         \<and> parentsBelow (blockTab s)"
proof -
  from assms obtain mainText s2 s3 s4 where
    cmds: "parseTemplateCommands pp fuel 0 (beginMainBlock (initParsing mainText)) = Some (Inr s2)"
    and emb: "endMainBlock s2 = Inr s3"
    and chk: "checkBlockDefinitionsComplete s3 = Inr s4"
    and vars: "parseTemplateVariables fuel 0 s4 = Some (Inr s)"
    by (auto simp: parseTemplateScan_def split: option.splits sum.splits if_splits)
  have "cmdInv s2" using cmds cmdInv_beginMainBlock by (rule parseTemplateCommands_cmdInv)
  with emb have i3: "cmdInv s3" "rootSpan s3" using endMainBlock_cmdInv by blast+
  have s4: "s4 = s3" using chk by (rule checkBlockDefinitionsComplete_Inr)
  have "varsInv s4" using i3 s4 by (simp add: cmdInv_def)
  from parseTemplateVariables_inv [OF vars this]
  have v: "varsInv s" and fr: "blockTab s = blockTab s3" "blockNameToNoMap s = blockNameToNoMap s3"
    "templateText s = templateText s3"
    by (simp_all add: s4)
  have "namesInv s" using i3(1) fr by (simp add: cmdInv_def namesInv_def lookupBlockName_def)
  moreover have "rootInv s" using i3(1) fr by (simp add: cmdInv_def rootInv_def)
  moreover have "rootSpan s" using i3(2) fr by (simp add: rootSpan_def)
  moreover have "mapsEmpty s" using i3(1) fr by (simp add: cmdInv_def mapsEmpty_def)
  moreover have "length (blockTab s) \<le> 32768 \<longrightarrow> parentsOk (blockTab s)"
    using i3(1) fr by (simp add: cmdInv_def parentsInv_def)
  moreover have "parentsBelow (blockTab s)"
    using i3(1) fr by (simp add: cmdInv_def parentsInv_def)
  ultimately show ?thesis using v by simp
qed

lemma parseTemplate_templateOk:
  assumes "parseTemplate pp fuel = Some (Inr t)"
  shows "templateOk t"
proof -
  from assms obtain s5 s6 where
    scan: "parseTemplateScan pp fuel = Some (Inr s5)"
    and assoc: "associateLoop fuel 0 0 1 s5 = Some (Inr s6)"
    and t: "t = parserResult s6"
    by (auto simp: parseTemplate_def associateVariablesWithBlocks_def
        split: option.splits sum.splits)
  from parseTemplateScan_inv [OF scan]
  have i5: "namesInv s5" "rootInv s5" "rootSpan s5" "varsInv s5" "mapsEmpty s5"
    "length (blockTab s5) \<le> 32768 \<longrightarrow> parentsOk (blockTab s5)"
    "parentsBelow (blockTab s5)"
    by simp_all
  have a0: "assocInv s5 0" using i5(5) by (simp add: assocInv_def mapsEmpty_def)
  from associateLoop_inv [OF assoc a0]
  have a6: "assocInv s6 (length (varRefTab s6))"
    and sv: "map stripVars (blockTab s6) = map stripVars (blockTab s5)"
    and sb: "map stripBlocks (varRefTab s6) = map stripBlocks (varRefTab s5)"
    and fr: "templateText s6 = templateText s5" "varTab s6 = varTab s5"
      "varNameToNoMap s6 = varNameToNoMap s5" "blockNameToNoMap s6 = blockNameToNoMap s5"
    by simp_all
  note sf = stripVars_fields [OF sv]
  have "namesInv s6" using i5(1) sv fr(4) by (rule namesInv_transfer)
  then have "namesInv t" by (simp add: t namesInv_def lookupBlockName_def)
  moreover have "rootInv s6" using i5(2) sv by (rule rootInv_transfer)
  then have "rootInv t" by (simp add: t rootInv_def)
  moreover have "rootSpan t"
    using i5(2,3) sf by (simp add: t rootSpan_def fr rootInv_def)
  moreover have "varsInv s6" using i5(4) sb fr(2,3) by (rule varsInv_transfer)
  then have "varsInv t" by (simp add: t varsInv_def)
  moreover have "assocInv t (length (varRefTab t))" using a6 by (simp add: t assocInv_def)
  moreover have "length (blockTab t) \<le> 32768 \<longrightarrow> parentsOk (blockTab t)"
    using i5(6) sv sf(1) by (auto simp: t intro: parentsOk_transfer)
  moreover have "parentsBelow (blockTab t)"
    using i5(7) sv by (auto simp: t intro: parentsBelow_transfer)
  ultimately show ?thesis by (simp add: templateOk_def)
qed

lemma addBlockByNo_addedRec:
  assumes len: "length (blockDynTab s) = length (blockTab (template s))"
    and b: "b < length (blockTab (template s))"
    and last: "lastBlockInstNo (blockDynTab s ! b) = - 1
               \<or> (0 \<le> lastBlockInstNo (blockDynTab s ! b)
                   \<and> nat (lastBlockInstNo (blockDynTab s ! b)) < length (blockInstTab s))"
    and par: "parentBlockNo (blockTab (template s) ! b) < int b"
  shows "addBlockByNo s (int b) =
           (if parentBlockNo (blockTab (template s) ! b) = - 1
               \<or> 0 \<le> parentBlockNo (blockTab (template s) ! b)
            then (None, added s b)
            else (Some TypeError, addedRec s b (partialInstance s b)))"
proof (cases "lastBlockInstNo (blockDynTab s ! b) = - 1")
  case l: True
  consider (root) "parentBlockNo (blockTab (template s) ! b) = - 1"
    | (child) "0 \<le> parentBlockNo (blockTab (template s) ! b)"
    | (bad) "parentBlockNo (blockTab (template s) ! b) < - 1"
    by linarith
  then show ?thesis
  proof cases
    case root
    then show ?thesis
      using len b l
      by (simp add: addBlockByNo_def Let_def added_def addedRec_def newInstance_def
          emptyBlockInstTabRec_def)
  next
    case child
    with par have "nat (parentBlockNo (blockTab (template s) ! b)) < b"
      "parentBlockNo (blockTab (template s) ! b) \<noteq> - 1" by auto
    then show ?thesis
      using len b l child
      by (simp add: addBlockByNo_def Let_def added_def addedRec_def newInstance_def
          emptyBlockInstTabRec_def)
  next
    case bad
    then have "parentBlockNo (blockTab (template s) ! b) \<noteq> - 1"
      "\<not> 0 \<le> parentBlockNo (blockTab (template s) ! b)" by auto
    then show ?thesis
      using len b l
      by (simp add: addBlockByNo_def Let_def addedRec_def partialInstance_def
          emptyBlockInstTabRec_def)
  qed
next
  case l: False
  with last have lv: "0 \<le> lastBlockInstNo (blockDynTab s ! b)"
    "nat (lastBlockInstNo (blockDynTab s ! b)) < length (blockInstTab s)" by auto
  consider (root) "parentBlockNo (blockTab (template s) ! b) = - 1"
    | (child) "0 \<le> parentBlockNo (blockTab (template s) ! b)"
    | (bad) "parentBlockNo (blockTab (template s) ! b) < - 1"
    by linarith
  then show ?thesis
  proof cases
    case root
    then show ?thesis
      using len b l lv
      by (simp add: addBlockByNo_def Let_def added_def addedRec_def newInstance_def
          emptyBlockInstTabRec_def list_update_append1 list_update_append nth_append)
  next
    case child
    with par have "nat (parentBlockNo (blockTab (template s) ! b)) < b"
      "parentBlockNo (blockTab (template s) ! b) \<noteq> - 1" by auto
    then show ?thesis
      using len b l lv child
      by (simp add: addBlockByNo_def Let_def added_def addedRec_def newInstance_def
          emptyBlockInstTabRec_def list_update_append1 list_update_append nth_append)
  next
    case bad
    then have "parentBlockNo (blockTab (template s) ! b) \<noteq> - 1"
      "\<not> 0 \<le> parentBlockNo (blockTab (template s) ! b)" by auto
    then show ?thesis
      using len b l lv
      by (simp add: addBlockByNo_def Let_def addedRec_def partialInstance_def
          emptyBlockInstTabRec_def list_update_append1 list_update_append nth_append)
  qed
qed

lemma instancesOf_append:
  assumes "length tab' = length tab" "\<And>i. i < length tab \<Longrightarrow> blockNo (tab' ! i) = blockNo (tab ! i)"
  shows "instancesOf (tab' @ [new]) c =
         instancesOf tab c @ (if blockNo new = int c then [length tab] else [])"
proof -
  have "filter (\<lambda>i. blockNo ((tab' @ [new]) ! i) = int c) [0 ..< length tab]
        = filter (\<lambda>i. blockNo (tab ! i) = int c) [0 ..< length tab]"
    using assms by (intro filter_cong) (auto simp: nth_append)
  then show ?thesis
    using assms(1) by (simp add: instancesOf_def nth_append)
qed

lemma instancesOf_props:
  "i \<in> set (instancesOf tab c) \<longleftrightarrow> i < length tab \<and> blockNo (tab ! i) = int c"
  "distinct (instancesOf tab c)"
  by (auto simp: instancesOf_def)

lemma nth_update_same:
  "i < length xs \<Longrightarrow> xs[k := f (xs ! k)] ! i = (if i = k then f (xs ! i) else xs ! i)"
  by (cases "k = i") simp_all

lemma map_update_same: "(map f xs)[k := f (xs ! k)] = map f xs"
  by (cases "k < length xs") (simp_all add: list_update_same_conv list_update_beyond)

lemma addedRec_fields [simp]:
  "template (addedRec s b r) = template s"
  "varValuesTab (addedRec s b r) = varValuesTab s"
  "length (blockDynTab (addedRec s b r)) = length (blockDynTab s)"
  "length (blockInstTab (addedRec s b r)) = Suc (length (blockInstTab s))"
  by (simp_all add: addedRec_def Let_def)

lemma added_fields [simp]:
  "template (added s b) = template s"
  "varValuesTab (added s b) = varValuesTab s"
  "length (blockDynTab (added s b)) = length (blockDynTab s)"
  "length (blockInstTab (added s b)) = Suc (length (blockInstTab s))"
  by (simp_all add: added_def)

lemma addedRec_blockNo:
  "i < length (blockInstTab s) \<Longrightarrow>
     blockNo (blockInstTab (addedRec s b r) ! i) = blockNo (blockInstTab s ! i)"
  by (simp add: addedRec_def Let_def nth_append nth_update_same)

lemma addedRec_last [simp]:
  "blockInstTab (addedRec s b r) ! length (blockInstTab s) = r"
  by (simp add: addedRec_def Let_def nth_append)

lemma addedRec_map_blockNo:
  "map blockNo (blockInstTab (addedRec s b r)) = map blockNo (blockInstTab s) @ [blockNo r]"
  by (simp add: addedRec_def Let_def map_update map_update_same)

lemma added_map_blockNo:
  "map blockNo (blockInstTab (added s b)) = map blockNo (blockInstTab s) @ [int b]"
  by (simp add: added_def addedRec_map_blockNo newInstance_def Let_def)

lemma addedRec_instancesOf:
  assumes "blockNo r = int b"
  shows "instancesOf (blockInstTab (addedRec s b r)) c =
     instancesOf (blockInstTab s) c @ (if c = b then [length (blockInstTab s)] else [])"
proof -
  let ?tab' = "if lastBlockInstNo (blockDynTab s ! b) \<noteq> - 1
                then (blockInstTab s)
                       [nat (lastBlockInstNo (blockDynTab s ! b)) :=
                          (blockInstTab s ! nat (lastBlockInstNo (blockDynTab s ! b)))
                            \<lparr> nextBlockInstNo := int (length (blockInstTab s)) \<rparr>]
                else blockInstTab s"
  have eq: "blockInstTab (addedRec s b r) = ?tab' @ [r]"
    by (simp add: addedRec_def Let_def)
  have "instancesOf (?tab' @ [r]) c =
        instancesOf (blockInstTab s) c
        @ (if blockNo r = int c then [length (blockInstTab s)] else [])"
    by (rule instancesOf_append) (auto simp: nth_update_same)
  then show ?thesis
    unfolding eq using assms by auto
qed

lemma addedRec_sessionOk:
  assumes ok: "sessionOk s" and b: "b < length (blockTab (template s))"
    and r: "blockNo r = int b" "instanceLevel r = instances (blockDynTab s ! b)"
      "nextBlockInstNo r = - 1"
  shows "sessionOk (addedRec s b r)"
proof -
  let ?tab = "blockInstTab s" and ?dyn = "blockDynTab s"
  let ?L = "length ?tab"
  let ?s' = "addedRec s b r"
  let ?d = "?dyn ! b"
  from ok have len: "length ?dyn = length (blockTab (template s))"
    and chain: "\<And>c. c < length ?dyn \<Longrightarrow> chainOk ?tab (?dyn ! c) (instancesOf ?tab c)"
    and bn: "\<And>i. i < ?L \<Longrightarrow> 0 \<le> blockNo (?tab ! i) \<and> nat (blockNo (?tab ! i)) < length ?dyn"
    unfolding sessionOk_def by auto
  have bd: "b < length ?dyn" using b len by simp
  note cb = chain [OF bd]
  let ?is = "instancesOf ?tab b"
  have last_eq: "lastBlockInstNo ?d = (if ?is = [] then - 1 else int (last ?is))"
    using cb by (simp add: chainOk_def)
  have last_in: "last ?is < ?L \<and> blockNo (?tab ! last ?is) = int b" if "?is \<noteq> []"
    using that last_in_set [OF that] by (simp add: instancesOf_props)
  \<comment> \<open>records of the old table in the new one\<close>
  have rec: "blockInstTab ?s' ! i =
      (if ?is \<noteq> [] \<and> i = last ?is then (?tab ! i)\<lparr> nextBlockInstNo := int ?L \<rparr> else ?tab ! i)"
    if "i < ?L" for i
    using that last_eq by (auto simp: addedRec_def Let_def nth_append nth_update_same)
  have dyn': "blockDynTab ?s' ! c =
      (if c = b then ?d\<lparr> firstBlockInstNo := (if firstBlockInstNo ?d = - 1 then int ?L
                                               else firstBlockInstNo ?d),
                          lastBlockInstNo := int ?L, instances := instances ?d + 1 \<rparr>
       else ?dyn ! c)" if "c < length ?dyn" for c
    using that by (simp add: addedRec_def Let_def nth_list_update)
  have c_other: "chainOk (blockInstTab ?s') (blockDynTab ?s' ! c) (instancesOf (blockInstTab ?s') c)"
    if c: "c < length ?dyn" and ne: "c \<noteq> b" for c
  proof -
    have iseq: "instancesOf (blockInstTab ?s') c = instancesOf ?tab c"
      using ne r(1) by (simp add: addedRec_instancesOf)
    have same: "blockInstTab ?s' ! (instancesOf ?tab c ! k) = ?tab ! (instancesOf ?tab c ! k)"
      if "k < length (instancesOf ?tab c)" for k
    proof -
      have mem: "instancesOf ?tab c ! k \<in> set (instancesOf ?tab c)" using that by simp
      then have "instancesOf ?tab c ! k < ?L" "blockNo (?tab ! (instancesOf ?tab c ! k)) = int c"
        by (simp_all add: instancesOf_props)
      moreover have "instancesOf ?tab c ! k \<noteq> last ?is" if "?is \<noteq> []"
        using last_in [OF that] calculation ne by auto
      ultimately show ?thesis by (auto simp: rec)
    qed
    show ?thesis
      using chain [OF c] c ne unfolding iseq chainOk_def
      by (simp add: dyn' same)
  qed
  have c_b: "chainOk (blockInstTab ?s') (blockDynTab ?s' ! b) (instancesOf (blockInstTab ?s') b)"
  proof -
    have iseq: "instancesOf (blockInstTab ?s') b = ?is @ [?L]"
      using r(1) by (simp add: addedRec_instancesOf)
    have first: "firstBlockInstNo ?d = (if ?is = [] then - 1 else int (hd ?is))"
      and inst: "instances ?d = length ?is"
      and links: "\<And>k. k < length ?is \<Longrightarrow> instanceLevel (?tab ! (?is ! k)) = k
            \<and> nextBlockInstNo (?tab ! (?is ! k)) = (if Suc k < length ?is then int (?is ! Suc k) else - 1)"
      using cb by (simp_all add: chainOk_def)
    have old: "instanceLevel (blockInstTab ?s' ! ((?is @ [?L]) ! k)) = k
            \<and> nextBlockInstNo (blockInstTab ?s' ! ((?is @ [?L]) ! k))
                = (if Suc k < length (?is @ [?L]) then int ((?is @ [?L]) ! Suc k) else - 1)"
      if k: "k < length ?is" for k
    proof -
      have ne: "?is \<noteq> []" using k by auto
      have mem: "?is ! k \<in> set ?is" using k by simp
      then have lt: "?is ! k < ?L" by (simp add: instancesOf_props)
      have lastk: "?is ! k = last ?is \<longleftrightarrow> Suc k = length ?is"
      proof
        assume "?is ! k = last ?is"
        then have "?is ! k = ?is ! (length ?is - 1)" using ne by (simp add: last_conv_nth)
        then have "k = length ?is - 1"
          using k ne instancesOf_props(2) [of ?tab b] by (simp add: nth_eq_iff_index_eq)
        then show "Suc k = length ?is" using ne by simp
      next
        assume "Suc k = length ?is"
        then have "k = length ?is - 1" by simp
        then show "?is ! k = last ?is" using ne by (simp add: last_conv_nth)
      qed
      show ?thesis
      proof (cases "Suc k = length ?is")
        case True
        then show ?thesis using links [OF k] k lt lastk ne
          by (simp add: rec nth_append)
      next
        case False
        then have "Suc k < length ?is" using k by simp
        then show ?thesis using links [OF k] k lt lastk ne False
          by (simp add: rec nth_append)
      qed
    qed
    have new: "instanceLevel (blockInstTab ?s' ! ?L) = length ?is
               \<and> nextBlockInstNo (blockInstTab ?s' ! ?L) = - 1"
      using inst r by simp
    have all: "instanceLevel (blockInstTab ?s' ! ((?is @ [?L]) ! k)) = k
            \<and> nextBlockInstNo (blockInstTab ?s' ! ((?is @ [?L]) ! k))
                = (if Suc k < length (?is @ [?L]) then int ((?is @ [?L]) ! Suc k) else - 1)"
      if "k < length (?is @ [?L])" for k
    proof (cases "k < length ?is")
      case True
      then show ?thesis by (rule old)
    next
      case False
      with that have "k = length ?is" by simp
      then show ?thesis using new by (simp add: nth_append)
    qed
    have hd_eq: "?is \<noteq> [] \<Longrightarrow> hd (?is @ [?L]) = hd ?is" by simp
    show ?thesis
      unfolding iseq chainOk_def
      using all first inst bd by (auto simp: dyn')
  qed
  have third: "0 \<le> blockNo (blockInstTab ?s' ! i)
               \<and> nat (blockNo (blockInstTab ?s' ! i)) < length (blockDynTab ?s')"
    if "i < length (blockInstTab ?s')" for i
  proof (cases "i < ?L")
    case True
    then show ?thesis using bn [OF True] by (simp add: addedRec_blockNo)
  next
    case False
    with that have "i = ?L" by simp
    then show ?thesis using bd r by simp
  qed
  show ?thesis
    unfolding sessionOk_def
    using len c_other c_b third
    by (auto simp: )
qed

lemma added_sessionOk:
  assumes "sessionOk s" and "b < length (blockTab (template s))"
  shows "sessionOk (added s b)"
  unfolding added_def using assms
  by (rule addedRec_sessionOk) (simp_all add: newInstance_def Let_def)

lemma partial_sessionOk:
  assumes "sessionOk s" and "b < length (blockTab (template s))"
  shows "sessionOk (addedRec s b (partialInstance s b))"
  using assms
  by (rule addedRec_sessionOk) (simp_all add: partialInstance_def)

lemma sameSession_refl [simp]: "sameSession s s"
  by (simp add: sameSession_def)

lemma sameSession_trans: "sameSession s s' \<Longrightarrow> sameSession s' s'' \<Longrightarrow> sameSession s s''"
  by (simp add: sameSession_def)

lemma noCursor_update [simp]: "noCursor (d\<lparr> currBlockInstNo := x \<rparr>) = noCursor d"
  by (simp add: noCursor_def)

lemma sameSession_advanceCursor [simp]: "sameSession s (advanceCursor s b i)"
  by (simp add: sameSession_def advanceCursor_def map_update map_update_same)

lemma write_sameSession:
  "(\<forall>s out b L e s' out'. writeBlockInstances fuel s out b L = Some (e, s', out') \<longrightarrow> sameSession s s')
   \<and> (\<forall>s out i e s' out'. writeBlockInstance fuel s out i = Some (e, s', out') \<longrightarrow> sameSession s s')
   \<and> (\<forall>s out bitr btr tPos sb vr e s' out'.
         writeChunks fuel s out bitr btr tPos sb vr = Some (e, s', out') \<longrightarrow> sameSession s s')"
proof (induction fuel)
  case 0
  show ?case by simp
next
  case (Suc fuel)
  have ih1: "\<And>s out b L e s' out'. writeBlockInstances fuel s out b L = Some (e, s', out') \<Longrightarrow> sameSession s s'"
    using Suc by fast
  have ih2: "\<And>s out i e s' out'. writeBlockInstance fuel s out i = Some (e, s', out') \<Longrightarrow> sameSession s s'"
    using Suc by fast
  have ih3: "\<And>s out bitr btr tPos sb vr e s' out'.
         writeChunks fuel s out bitr btr tPos sb vr = Some (e, s', out') \<Longrightarrow> sameSession s s'"
    using Suc by fast
  have p1: "sameSession s s'"
    if "writeBlockInstances (Suc fuel) s out b L = Some (e, s', out')" for s out b L e s' out'
    using that
    by (auto split: instancesStep.splits option.splits prod.splits
        dest!: ih1 ih2 intro: sameSession_trans [OF _ sameSession_trans [OF sameSession_advanceCursor]])
  have p2: "sameSession s s'"
    if "writeBlockInstance (Suc fuel) s out i = Some (e, s', out')" for s out i e s' out'
    using that by (auto split: if_splits dest!: ih3)
  have p3: "sameSession s s'"
    if "writeChunks (Suc fuel) s out bitr btr tPos sb vr = Some (e, s', out')"
    for s out bitr btr tPos sb vr e s' out'
    using that
    by (auto split: chunkStep.splits option.splits prod.splits
        dest!: ih1 ih3 intro: sameSession_trans)
  show ?case using p1 p2 p3 by blast
qed

lemma noCursor_fields:
  assumes "map noCursor dyn' = map noCursor dyn"
  shows "length dyn' = length dyn"
    and "b < length dyn \<Longrightarrow> instances (dyn' ! b) = instances (dyn ! b)"
    and "b < length dyn \<Longrightarrow> firstBlockInstNo (dyn' ! b) = firstBlockInstNo (dyn ! b)"
    and "b < length dyn \<Longrightarrow> lastBlockInstNo (dyn' ! b) = lastBlockInstNo (dyn ! b)"
proof -
  show len: "length dyn' = length dyn" using assms by (rule map_eq_imp_length_eq)
  have eq: "noCursor (dyn' ! b) = noCursor (dyn ! b)" if "b < length dyn" for b
    using that len nth_map [of b dyn' noCursor] nth_map [of b dyn noCursor] assms by simp
  have f: "instances x = instances (noCursor x)" "firstBlockInstNo x = firstBlockInstNo (noCursor x)"
    "lastBlockInstNo x = lastBlockInstNo (noCursor x)" for x
    by (simp_all add: noCursor_def)
  show "b < length dyn \<Longrightarrow> instances (dyn' ! b) = instances (dyn ! b)"
    using eq [of b] f(1) [of "dyn' ! b"] f(1) [of "dyn ! b"] by simp
  show "b < length dyn \<Longrightarrow> firstBlockInstNo (dyn' ! b) = firstBlockInstNo (dyn ! b)"
    using eq [of b] f(2) [of "dyn' ! b"] f(2) [of "dyn ! b"] by simp
  show "b < length dyn \<Longrightarrow> lastBlockInstNo (dyn' ! b) = lastBlockInstNo (dyn ! b)"
    using eq [of b] f(3) [of "dyn' ! b"] f(3) [of "dyn ! b"] by simp
qed

lemma sessionOk_sameSession:
  assumes "sessionOk s" "sameSession s s'"
  shows "sessionOk s'"
proof -
  from assms(2) have eqs: "template s' = template s" "blockInstTab s' = blockInstTab s"
    and m: "map noCursor (blockDynTab s') = map noCursor (blockDynTab s)"
    by (simp_all add: sameSession_def)
  note nf = noCursor_fields [OF m]
  show ?thesis
    using assms(1) unfolding sessionOk_def chainOk_def
    by (auto simp: eqs nf)
qed

lemma sessionOk_new: "sessionOk (newMiniTemplator t)"
  by (simp add: sessionOk_def newMiniTemplator_def reset_def chainOk_def instancesOf_def
      emptyBlockDynTabRec_def)

lemma reset_fields [simp]:
  "template (reset s) = template s"
  "blockInstTab (reset s) = []"
  by (simp_all add: reset_def)

lemma sessionOk_reset:
  assumes "sessionOk s"
  shows "sessionOk (reset s)"
proof -
  have len: "length (blockDynTab s) = length (blockTab (template s))"
    using assms by (simp add: sessionOk_def)
  show ?thesis
    using len
    by (simp add: sessionOk_def reset_def chainOk_def instancesOf_def)
qed

lemma setVariable_sameSession_parts:
  "template (snd (setVariable s n v)) = template s"
  "blockInstTab (snd (setVariable s n v)) = blockInstTab s"
  "blockDynTab (snd (setVariable s n v)) = blockDynTab s"
  "template (snd (setVariableOpt s n v)) = template s"
  "blockInstTab (snd (setVariableOpt s n v)) = blockInstTab s"
  "blockDynTab (snd (setVariableOpt s n v)) = blockDynTab s"
  by (simp_all add: setVariable_def setVariableOpt_def Let_def)

lemma sessionOk_setVariable:
  "sessionOk s \<Longrightarrow> sessionOk (snd (setVariable s n v))"
  "sessionOk s \<Longrightarrow> sessionOk (snd (setVariableOpt s n v))"
  by (auto simp: sessionOk_def setVariable_sameSession_parts)

lemma sessionOk_last:
  assumes "sessionOk s" "b < length (blockTab (template s))"
  shows "lastBlockInstNo (blockDynTab s ! b) = - 1
         \<or> (0 \<le> lastBlockInstNo (blockDynTab s ! b)
             \<and> nat (lastBlockInstNo (blockDynTab s ! b)) < length (blockInstTab s))"
proof -
  let ?is = "instancesOf (blockInstTab s) b"
  have c: "chainOk (blockInstTab s) (blockDynTab s ! b) ?is"
    using assms by (simp add: sessionOk_def)
  show ?thesis
  proof (cases "?is = []")
    case True
    with c show ?thesis by (simp add: chainOk_def)
  next
    case False
    then have "last ?is \<in> set ?is" by simp
    then have "last ?is < length (blockInstTab s)" by (simp add: instancesOf_props)
    with c False show ?thesis by (simp add: chainOk_def)
  qed
qed

lemma addBlockByNo_cases:
  assumes "sessionOk s" "parentsBelow (blockTab (template s))" "b < length (blockTab (template s))"
  shows "addBlockByNo s (int b) =
           (if parentBlockNo (blockTab (template s) ! b) = - 1
               \<or> 0 \<le> parentBlockNo (blockTab (template s) ! b)
            then (None, added s b)
            else (Some TypeError, addedRec s b (partialInstance s b)))"
proof -
  have len: "length (blockDynTab s) = length (blockTab (template s))"
    using assms(1) by (simp add: sessionOk_def)
  have par: "parentBlockNo (blockTab (template s) ! b) < int b"
    using assms(2,3) by (simp add: parentsBelow_def)
  show ?thesis
    using len assms(3) sessionOk_last [OF assms(1,3)] par by (rule addBlockByNo_addedRec)
qed

lemma addBlockByNo_ok:
  assumes "sessionOk s" "parentsOk (blockTab (template s))" "parentsBelow (blockTab (template s))"
    "b < length (blockTab (template s))"
  shows "addBlockByNo s (int b) = (None, added s b)"
  using addBlockByNo_cases [OF assms(1,3,4)] assms(2,4) by (auto simp: parentsOk_def)

lemma addBlockByNo_sessionOk:
  assumes "sessionOk s" "parentsBelow (blockTab (template s))" "b < length (blockTab (template s))"
  shows "sessionOk (snd (addBlockByNo s (int b)))"
    and "template (snd (addBlockByNo s (int b))) = template s"
    and "fst (addBlockByNo s (int b)) = None \<Longrightarrow> snd (addBlockByNo s (int b)) = added s b"
  using addBlockByNo_cases [OF assms] added_sessionOk [OF assms(1,3)] partial_sessionOk [OF assms(1,3)]
  by (auto split: if_splits)

lemma addedAll_simps [simp]:
  "addedAll s [] = s"
  "addedAll s (b # bs) = addedAll (added s b) bs"
  by (simp_all add: addedAll_def)

lemma addedAll_sessionOk:
  "sessionOk s \<Longrightarrow> \<forall>b \<in> set bs. b < length (blockTab (template s)) \<Longrightarrow>
     sessionOk (addedAll s bs) \<and> template (addedAll s bs) = template s
     \<and> varValuesTab (addedAll s bs) = varValuesTab s
     \<and> map blockNo (blockInstTab (addedAll s bs)) = map blockNo (blockInstTab s) @ map int bs"
proof (induction bs arbitrary: s)
  case Nil
  then show ?case by simp
next
  case (Cons b bs)
  have ok: "sessionOk (added s b)" using Cons.prems by (simp add: added_sessionOk)
  from Cons.IH [OF ok] Cons.prems show ?case
    by (simp add: added_map_blockNo)
qed

lemma chainBlocks_Suc:
  "chainBlocks bt n (Suc k) =
     (if blockName (bt ! k) = Some n then k # chainBlocks bt n k else chainBlocks bt n k)"
  by (simp add: chainBlocks_def)

lemma addBlocksByNo_chain:
  assumes "namesInv t" "parentsOk (blockTab t)" "parentsBelow (blockTab t)"
  shows "sessionOk s \<Longrightarrow> template s = t \<Longrightarrow> k \<le> length (blockTab t) \<Longrightarrow>
     addBlocksByNo fuel s (prevNamed (blockTab t) n k) =
       (if fuel > length (chainBlocks (blockTab t) n k)
        then Some (None, addedAll s (chainBlocks (blockTab t) n k)) else None)"
proof (induction k arbitrary: fuel s)
  case 0
  then show ?case by (cases fuel) (simp_all add: chainBlocks_def)
next
  case (Suc k)
  show ?case
  proof (cases "blockName (blockTab t ! k) = Some n")
    case False
    with Suc show ?thesis by (simp add: chainBlocks_Suc)
  next
    case True
    have kb: "k < length (blockTab t)" using Suc.prems by simp
    have nx: "nextWithSameName (blockTab t ! k) = prevNamed (blockTab t) n k"
      using assms(1) kb True by (simp add: namesInv_def)
    have add: "addBlockByNo s (int k) = (None, added s k)"
      using Suc.prems assms(2,3) kb by (intro addBlockByNo_ok) simp_all
    have ok': "sessionOk (added s k)" using Suc.prems kb by (simp add: added_sessionOk)
    show ?thesis
    proof (cases fuel)
      case 0
      then show ?thesis using True by (simp add: chainBlocks_Suc)
    next
      case (Suc f)
      have "addBlocksByNo f (added s k) (prevNamed (blockTab t) n k) =
          (if f > length (chainBlocks (blockTab t) n k)
           then Some (None, addedAll (added s k) (chainBlocks (blockTab t) n k)) else None)"
        using ok' Suc.prems kb by (intro Suc.IH) simp_all
      then show ?thesis
        using True add nx Suc Suc.prems(2) by (simp add: chainBlocks_Suc)
    qed
  qed
qed

lemma addBlocksByNo_chain_any:
  assumes "namesInv t" "parentsBelow (blockTab t)"
  shows "sessionOk s \<Longrightarrow> template s = t \<Longrightarrow> k \<le> length (blockTab t) \<Longrightarrow>
     addBlocksByNo fuel s (prevNamed (blockTab t) n k) = Some (r, s') \<Longrightarrow>
       sessionOk s' \<and> template s' = t
       \<and> (r = None \<longrightarrow> s' = addedAll s (chainBlocks (blockTab t) n k))"
proof (induction k arbitrary: fuel s)
  case 0
  then show ?case by (cases fuel) (simp_all add: chainBlocks_def)
next
  case (Suc k)
  show ?case
  proof (cases "blockName (blockTab t ! k) = Some n")
    case False
    have le: "k \<le> length (blockTab t)" using Suc.prems by simp
    have rec: "addBlocksByNo fuel s (prevNamed (blockTab t) n k) = Some (r, s')"
      using Suc.prems(4) False by simp
    from Suc.IH [OF Suc.prems(1,2) le rec] show ?thesis
      using False by (simp add: chainBlocks_Suc)
  next
    case True
    have kb: "k < length (blockTab (template s))" using Suc.prems by simp
    have pb: "parentsBelow (blockTab (template s))" using assms(2) Suc.prems by simp
    have nx: "nextWithSameName (blockTab t ! k) = prevNamed (blockTab t) n k"
      using assms(1) kb True Suc.prems by (simp add: namesInv_def)
    note ab = addBlockByNo_sessionOk [OF Suc.prems(1) pb kb]
    obtain f where fuel: "fuel = Suc f" using Suc.prems(4) by (cases fuel) simp_all
    show ?thesis
    proof (cases "addBlockByNo s (int k)")
      case (Pair e s1)
      show ?thesis
      proof (cases e)
        case (Some err)
        then show ?thesis
          using Suc.prems(4) True Pair fuel ab Suc.prems(2) by auto
      next
        case None
        then have s1: "s1 = added s k" "sessionOk s1" "template s1 = t"
          using ab Pair Suc.prems(2) by simp_all
        have rec: "addBlocksByNo f s1 (prevNamed (blockTab t) n k) = Some (r, s')"
          using Suc.prems(4) True Pair None fuel nx Suc.prems(2) s1(3) by simp
        have "k \<le> length (blockTab t)" using Suc.prems by simp
        from Suc.IH [OF s1(2,3) this rec] show ?thesis
          using True s1(1) by (simp add: chainBlocks_Suc)
      qed
    qed
  qed
qed

lemma lookupBlockName_namesInv:
  "namesInv t \<Longrightarrow> lookupBlockName t n = prevNamed (blockTab t) n (length (blockTab t))"
  by (simp add: namesInv_def)

lemma chainBlocks_blocksNamed:
  "chainBlocks (blockTab t) n (length (blockTab t)) = rev (blocksNamed n t)"
  by (simp add: chainBlocks_def blocksNamed_def)

lemma chainBlocks_valid: "\<forall>b \<in> set (chainBlocks bt n k). b < k"
  by (simp add: chainBlocks_def)

lemma lookupBlockName_none:
  "namesInv t \<Longrightarrow> lookupBlockName t n = - 1 \<longleftrightarrow> blocksNamed n t = []"
  by (auto simp: lookupBlockName_namesInv prevNamed_none blocksNamed_def filter_empty_conv)

lemma addBlocksByNo_lookup:
  assumes "namesInv t" "parentsOk (blockTab t)" "parentsBelow (blockTab t)" "sessionOk s"
    "template s = t"
  shows "addBlocksByNo fuel s (lookupBlockName t n) =
       (if fuel > length (blocksNamed n t)
        then Some (None, addedAll s (rev (blocksNamed n t))) else None)"
  using addBlocksByNo_chain [OF assms(1-5), of "length (blockTab t)" fuel n] assms(1)
  by (simp add: lookupBlockName_namesInv chainBlocks_blocksNamed)

lemma addBlocksByNo_lookup_any:
  assumes "namesInv t" "parentsBelow (blockTab t)" "sessionOk s" "template s = t"
    and "addBlocksByNo fuel s (lookupBlockName t n) = Some (r, s')"
  shows "sessionOk s' \<and> template s' = t \<and> (r = None \<longrightarrow> s' = addedAll s (rev (blocksNamed n t)))"
  using addBlocksByNo_chain_any [OF assms(1-4), of "length (blockTab t)" fuel n r s'] assms(1,5)
  by (simp add: lookupBlockName_namesInv chainBlocks_blocksNamed)

lemma addedAll_blocksNamed_ok:
  assumes "sessionOk s" "template s = t"
  shows "sessionOk (addedAll s (rev (blocksNamed n t)))"
    and "template (addedAll s (rev (blocksNamed n t))) = t"
    and "varValuesTab (addedAll s (rev (blocksNamed n t))) = varValuesTab s"
    and "map blockNo (blockInstTab (addedAll s (rev (blocksNamed n t))))
          = map blockNo (blockInstTab s) @ map int (rev (blocksNamed n t))"
proof -
  have "\<forall>b \<in> set (rev (blocksNamed n t)). b < length (blockTab (template s))"
    using assms(2) by (simp add: blocksNamed_def)
  from addedAll_sessionOk [OF assms(1) this] assms(2)
  show "sessionOk (addedAll s (rev (blocksNamed n t)))"
    and "template (addedAll s (rev (blocksNamed n t))) = t"
    and "varValuesTab (addedAll s (rev (blocksNamed n t))) = varValuesTab s"
    and "map blockNo (blockInstTab (addedAll s (rev (blocksNamed n t))))
          = map blockNo (blockInstTab s) @ map int (rev (blocksNamed n t))"
    by simp_all
qed

lemma addBlock_sessionOk:
  assumes "namesInv t" "parentsBelow (blockTab t)" "sessionOk s" "template s = t"
    and "addBlock fuel s n = Some (r, s') \<or> addBlockOpt fuel s n = Some (r, s')"
  shows "sessionOk s' \<and> template s' = t"
proof -
  from assms(5) have "s' = s \<or> addBlocksByNo fuel s (lookupBlockName t n) = Some (r, s')"
    using assms(4) by (auto simp: addBlock_def addBlockOpt_def Let_def split: if_splits)
  then show ?thesis
  proof
    assume "s' = s"
    then show ?thesis using assms(3,4) by simp
  next
    assume "addBlocksByNo fuel s (lookupBlockName t n) = Some (r, s')"
    from addBlocksByNo_lookup_any [OF assms(1-4) this] show ?thesis by simp
  qed
qed

lemma writeBlockInstances_sameSession:
  "writeBlockInstances fuel s out b L = Some (e, s', out') \<Longrightarrow> sameSession s s'"
  using write_sameSession [of fuel] by fast

lemma template_new [simp]: "template (newMiniTemplator t) = t"
  by (simp add: newMiniTemplator_def)

lemma sameSession_cursors:
  "sameSession s (s\<lparr> blockDynTab := map (\<lambda>bdtr. bdtr\<lparr> currBlockInstNo := firstBlockInstNo bdtr \<rparr>)
                                       (blockDynTab s) \<rparr>)"
  by (simp add: sameSession_def comp_def)

lemma generateOutputArray_sessionOk:
  assumes "rootInv t" "parentsBelow (blockTab t)" "sessionOk s" "template s = t"
    and "generateOutputArray fuel s = Some (r, s')"
  shows "sessionOk s' \<and> template s' = t"
proof -
  have bt: "0 < length (blockTab t)" using assms(1) by (simp add: rootInv_def)
  then have ne: "blockDynTab s \<noteq> []" using assms(3,4) by (auto simp: sessionOk_def)
  let ?s1 = "if instances (blockDynTab s ! 0) = 0 then added s 0 else s"
  have "parentBlockNo (blockTab (template s) ! 0) = - 1"
    using assms(1,4) by (simp add: rootInv_def)
  then have add: "(if instances (blockDynTab s ! 0) = 0 then addBlockByNo s 0 else (None, s)) = (None, ?s1)"
    using addBlockByNo_cases [of s 0] assms(2,3,4) bt by simp
  have ok1: "sessionOk ?s1 \<and> template ?s1 = t"
    using assms(3,4) bt by (simp add: added_sessionOk)
  let ?s2 = "?s1\<lparr> blockDynTab := map (\<lambda>bdtr. bdtr\<lparr> currBlockInstNo := firstBlockInstNo bdtr \<rparr>)
                                       (blockDynTab ?s1) \<rparr>"
  have ok2: "sessionOk ?s2 \<and> template ?s2 = t"
    using ok1 sessionOk_sameSession [OF _ sameSession_cursors [of ?s1]] by simp
  from assms(5) obtain e out where "writeBlockInstances fuel ?s2 [] 0 (- 1) = Some (e, s', out)"
    using ne unfolding generateOutputArray_def add
    by (auto split: option.splits prod.splits)
  then have "sameSession ?s2 s'" by (rule writeBlockInstances_sameSession)
  then show ?thesis
    using ok2 sessionOk_sameSession by (auto simp: sameSession_def)
qed

lemma generateOutputString_sessionOk:
  assumes "rootInv t" "parentsBelow (blockTab t)" "sessionOk s" "template s = t"
    and "generateOutputString fuel s = Some (r, s')"
  shows "sessionOk s' \<and> template s' = t"
proof -
  from assms(5) obtain r' where "generateOutputArray fuel s = Some (r', s')"
    by (auto simp: generateOutputString_def split: option.splits prod.splits sum.splits)
  with assms(1-4) show ?thesis by (rule generateOutputArray_sessionOk)
qed

lemma reachable_sessionOk:
  assumes "namesInv t" "rootInv t" "parentsBelow (blockTab t)"
  shows "reachable t s \<Longrightarrow> sessionOk s \<and> template s = t"
proof (induction rule: reachable.induct)
  case reachNew
  show ?case by (simp add: sessionOk_new)
next
  case (reachReset s)
  then show ?case by (simp add: sessionOk_reset)
next
  case (reachSetVariable s varName v)
  then show ?case by (simp add: sessionOk_setVariable setVariable_sameSession_parts)
next
  case (reachSetVariableOpt s varName v)
  then show ?case by (simp add: sessionOk_setVariable setVariable_sameSession_parts)
next
  case (reachAddBlock s fuel name r s')
  then show ?case using addBlock_sessionOk [OF assms(1,3), of s fuel name r s'] by simp
next
  case (reachAddBlockOpt s fuel name r s')
  then show ?case using addBlock_sessionOk [OF assms(1,3), of s fuel name r s'] by simp
next
  case (reachGenerate s fuel ro s')
  then show ?case using generateOutputString_sessionOk [OF assms(2,3), of s fuel ro s'] by simp
qed

lemma reachable_parsed:
  assumes "parseTemplate pp fuel = Some (Inr t)" "reachable t s"
  shows "sessionOk s" "template s = t"
proof -
  have ok: "templateOk t" using assms(1) by (rule parseTemplate_templateOk)
  then have "namesInv t" "rootInv t" "parentsBelow (blockTab t)"
    by (simp_all add: templateOk_def)
  from reachable_sessionOk [OF this assms(2)] show "sessionOk s" "template s = t" by simp_all
qed

lemma sameButValues_refl [simp]: "sameButValues s s"
  by (simp add: sameButValues_def)

lemma sameButValues_sym: "sameButValues s s' \<Longrightarrow> sameButValues s' s"
  by (simp add: sameButValues_def)

lemma sameButValues_trans: "sameButValues s s' \<Longrightarrow> sameButValues s' s'' \<Longrightarrow> sameButValues s s''"
  by (simp add: sameButValues_def)

lemma sameButValues_step:
  assumes "sameButValues s1 s2"
  shows "writeBlockInstancesStep s2 b L = writeBlockInstancesStep s1 b L"
    and "writeChunkStep s2 out bitr btr tPos sb vr = writeChunkStep s1 out bitr btr tPos sb vr"
    and "sameButValues (advanceCursor s1 b i) (advanceCursor s2 b i)"
proof -
  from assms have eq: "template s2 = template s1" "blockDynTab s2 = blockDynTab s1"
    "blockInstTab s2 = blockInstTab s1"
    by (simp_all add: sameButValues_def)
  show "writeBlockInstancesStep s2 b L = writeBlockInstancesStep s1 b L"
    unfolding writeBlockInstancesStep_def eq ..
  show "writeChunkStep s2 out bitr btr tPos sb vr = writeChunkStep s1 out bitr btr tPos sb vr"
    unfolding writeChunkStep_def eq ..
  show "sameButValues (advanceCursor s1 b i) (advanceCursor s2 b i)"
    by (simp add: sameButValues_def advanceCursor_def eq)
qed

lemma relW_simps [simp]:
  "relW None None"
  "relW (Some (e1, t1, o1)) (Some (e2, t2, o2)) \<longleftrightarrow> e1 = e2 \<and> o1 = o2 \<and> sameButValues t1 t2"
  "\<not> relW None (Some x)" "\<not> relW (Some x) None"
  by (simp_all add: relW_def split: prod.splits)

lemma relW_cases:
  assumes "relW r1 r2"
  obtains "r1 = None" "r2 = None"
  | e t1 t2 out where "r1 = Some (e, t1, out)" "r2 = Some (e, t2, out)" "sameButValues t1 t2"
  using assms by (cases r1; cases r2) (auto simp: relW_def split: prod.splits)

lemma write_values:
  "(\<forall>s1 s2 out b L. sameButValues s1 s2 \<longrightarrow>
        relW (writeBlockInstances fuel s1 out b L) (writeBlockInstances fuel s2 out b L))
   \<and> (\<forall>s1 s2 out i. sameButValues s1 s2 \<longrightarrow>
        relW (writeBlockInstance fuel s1 out i) (writeBlockInstance fuel s2 out i))
   \<and> (\<forall>s1 s2 out bitr btr tPos sb vr. sameButValues s1 s2 \<longrightarrow>
        relW (writeChunks fuel s1 out bitr btr tPos sb vr)
             (writeChunks fuel s2 out bitr btr tPos sb vr))"
proof (induction fuel)
  case 0
  show ?case by simp
next
  case (Suc fuel)
  have ih1: "\<And>s1 s2 out b L. sameButValues s1 s2 \<Longrightarrow>
        relW (writeBlockInstances fuel s1 out b L) (writeBlockInstances fuel s2 out b L)"
    using Suc by fast
  have ih2: "\<And>s1 s2 out i. sameButValues s1 s2 \<Longrightarrow>
        relW (writeBlockInstance fuel s1 out i) (writeBlockInstance fuel s2 out i)"
    using Suc by fast
  have ih3: "\<And>s1 s2 out bitr btr tPos sb vr. sameButValues s1 s2 \<Longrightarrow>
        relW (writeChunks fuel s1 out bitr btr tPos sb vr)
             (writeChunks fuel s2 out bitr btr tPos sb vr)"
    using Suc by fast
  have p1: "relW (writeBlockInstances (Suc fuel) s1 out b L) (writeBlockInstances (Suc fuel) s2 out b L)"
    if R: "sameButValues s1 s2" for s1 s2 out b L
  proof (cases "writeBlockInstancesStep s1 b L")
    case (InstThrow e)
    then show ?thesis using R sameButValues_step(1) [OF R, of b L] by simp
  next
    case InstBreak
    then show ?thesis using R sameButValues_step(1) [OF R, of b L] by simp
  next
    case (InstWrite i)
    note st = InstWrite sameButValues_step(1) [OF R, of b L]
    from ih2 [OF R, of out i] show ?thesis
    proof (cases rule: relW_cases)
      case 1
      then show ?thesis using st by simp
    next
      case (2 e t1 t2 out')
      show ?thesis
      proof (cases e)
        case None
        have "sameButValues (advanceCursor t1 b i) (advanceCursor t2 b i)"
          using 2(3) by (rule sameButValues_step(3))
        from ih1 [OF this, of out' b L] show ?thesis using st 2 None by simp
      next
        case (Some err)
        then show ?thesis using st 2 by simp
      qed
    qed
  qed
  have p2: "relW (writeBlockInstance (Suc fuel) s1 out i) (writeBlockInstance (Suc fuel) s2 out i)"
    if R: "sameButValues s1 s2" for s1 s2 out i
  proof -
    from R have eq: "template s2 = template s1" "blockInstTab s2 = blockInstTab s1"
      by (simp_all add: sameButValues_def)
    show ?thesis
      using R ih3 [OF R] by (simp add: eq)
  qed
  have p3: "relW (writeChunks (Suc fuel) s1 out bitr btr tPos sb vr)
             (writeChunks (Suc fuel) s2 out bitr btr tPos sb vr)"
    if R: "sameButValues s1 s2" for s1 s2 out bitr btr tPos sb vr
  proof -
    note st = sameButValues_step(2) [OF R, of out bitr btr tPos sb vr]
    show ?thesis
    proof (cases "writeChunkStep s1 out bitr btr tPos sb vr")
      case (ChunkThrow e out1)
      then show ?thesis using R st by simp
    next
      case SkipVarRef
      then show ?thesis using ih3 [OF R] st by simp
    next
      case SkipSubBlock
      then show ?thesis using ih3 [OF R] st by simp
    next
      case (ChunkEnd out1)
      then show ?thesis using R st by simp
    next
      case (ChunkVariable out1 tPos')
      then show ?thesis using ih3 [OF R] st by simp
    next
      case (ChunkSubBlock out1 tPos')
      from ih1 [OF R, of out1 sb "int (instanceLevel bitr)"] show ?thesis
      proof (cases rule: relW_cases)
        case 1
        then show ?thesis using st ChunkSubBlock by simp
      next
        case (2 e t1 t2 out')
        show ?thesis
        proof (cases e)
          case None
          from ih3 [OF 2(3), of out' bitr btr tPos' "sb + 1" vr] show ?thesis
            using st ChunkSubBlock 2 None by simp
        next
          case (Some err)
          then show ?thesis using st ChunkSubBlock 2 by simp
        qed
      qed
    qed
  qed
  show ?case using p1 p2 p3 by blast
qed

lemma written_relW: "relW r1 r2 \<Longrightarrow> written r1 = written r2"
  by (erule relW_cases) (simp_all add: written_def)

lemma writeBlockInstance_values:
  "sameButValues s1 s2 \<Longrightarrow>
     written (writeBlockInstance fuel s2 out i) = written (writeBlockInstance fuel s1 out i)"
  using write_values [of fuel] written_relW by (metis (no_types))

lemma snapshotOf_added [simp]: "snapshotOf (added s b) c = snapshotOf s c"
  by (simp add: snapshotOf_def)

lemma added_map_blockVarTab:
  "map blockVarTab (blockInstTab (added s b)) = map blockVarTab (blockInstTab s) @ [snapshotOf s b]"
  by (simp add: added_def addedRec_def Let_def map_update map_update_same newInstance_def
      snapshotOf_def)

lemma addedAll_map_blockVarTab:
  "map blockVarTab (blockInstTab (addedAll s bs))
     = map blockVarTab (blockInstTab s) @ map (snapshotOf s) bs"
proof (induction bs arbitrary: s)
  case Nil
  show ?case by simp
next
  case (Cons b bs)
  have "map (snapshotOf (added s b)) bs = map (snapshotOf s) bs" by simp
  with Cons [of "added s b"] show ?case by (simp add: added_map_blockVarTab)
qed

lemma callMethod_set_sameButValues:
  "isSetVariable c \<Longrightarrow> callMethod g s c = Some (r, s') \<Longrightarrow> sameButValues s s'"
  by (cases c) (auto simp: setVariable_def setVariableOpt_def Let_def sameButValues_def
      split: if_splits)

lemma runCalls_set_sameButValues:
  "\<forall>c \<in> set cs. isSetVariable c \<Longrightarrow> runCalls g s cs = Some (rs, s') \<Longrightarrow> sameButValues s s'"
proof (induction cs arbitrary: s rs)
  case Nil
  then show ?case by simp
next
  case (Cons c cs)
  from Cons.prems(2) obtain r s1 rs' where c: "callMethod g s c = Some (r, s1)"
    and rest: "runCalls g s1 cs = Some (rs', s')"
    by (auto split: option.splits prod.splits)
  have "sameButValues s s1" using Cons.prems(1) c by (auto intro: callMethod_set_sameButValues)
  moreover have "sameButValues s1 s'" using Cons.IH [OF _ rest] Cons.prems(1) by simp
  ultimately show ?case by (rule sameButValues_trans)
qed

lemma addBlock_returns:
  assumes "namesInv t" "parentsBelow (blockTab t)" "sessionOk s" "template s = t"
    and "addBlock f s n = Some (None, s1)"
  shows "s1 = addedAll s (rev (blocksNamed n t))" "blocksNamed n t \<noteq> []"
proof -
  have none: "lookupBlockName t n = - 1 \<longleftrightarrow> blocksNamed n t = []"
    using assms(1) by (rule lookupBlockName_none)
  from assms(5) have lk: "lookupBlockName t n \<noteq> - 1"
    and ab: "addBlocksByNo f s (lookupBlockName t n) = Some (None, s1)"
    using assms(4) by (auto simp: addBlock_def Let_def split: if_splits)
  show "blocksNamed n t \<noteq> []" using lk none by simp
  show "s1 = addedAll s (rev (blocksNamed n t))"
    using addBlocksByNo_lookup_any [OF assms(1-4) ab] by simp
qed

lemma assocInv_refs:
  assumes "assocInv t (length (varRefTab t))" "b < length (blockTab t)"
  shows "\<forall>v \<in> set (blockVarNoToVarNoMap (blockTab t ! b)).
           \<exists>r \<in> set (varRefTab t). varNo r = v \<and> vrBlockNo r = int b"
    and "\<forall>r \<in> set (varRefTab t). vrBlockNo r = int b \<longrightarrow>
           0 \<le> blockVarNo r
           \<and> nat (blockVarNo r) < length (blockVarNoToVarNoMap (blockTab t ! b))
           \<and> blockVarNoToVarNoMap (blockTab t ! b) ! nat (blockVarNo r) = varNo r"
proof -
  show "\<forall>v \<in> set (blockVarNoToVarNoMap (blockTab t ! b)).
           \<exists>r \<in> set (varRefTab t). varNo r = v \<and> vrBlockNo r = int b"
  proof
    fix v assume "v \<in> set (blockVarNoToVarNoMap (blockTab t ! b))"
    with assms obtain i where "i < length (varRefTab t)" "varNo (varRefTab t ! i) = v"
      "vrBlockNo (varRefTab t ! i) = int b"
      unfolding assocInv_def by blast
    then show "\<exists>r \<in> set (varRefTab t). varNo r = v \<and> vrBlockNo r = int b"
      by (intro bexI [of _ "varRefTab t ! i"]) simp_all
  qed
  show "\<forall>r \<in> set (varRefTab t). vrBlockNo r = int b \<longrightarrow>
           0 \<le> blockVarNo r
           \<and> nat (blockVarNo r) < length (blockVarNoToVarNoMap (blockTab t ! b))
           \<and> blockVarNoToVarNoMap (blockTab t ! b) ! nat (blockVarNo r) = varNo r"
  proof (intro ballI impI)
    fix r assume "r \<in> set (varRefTab t)" and rb: "vrBlockNo r = int b"
    then obtain i where i: "i < length (varRefTab t)" "varRefTab t ! i = r"
      by (auto simp: in_set_conv_nth)
    with assms(1) have
      "0 \<le> blockVarNo r
       \<and> nat (blockVarNo r) < length (blockVarNoToVarNoMap (blockTab t ! nat (vrBlockNo r)))
       \<and> blockVarNoToVarNoMap (blockTab t ! nat (vrBlockNo r)) ! nat (blockVarNo r) = varNo r"
      unfolding assocInv_def by blast
    then show "0 \<le> blockVarNo r
           \<and> nat (blockVarNo r) < length (blockVarNoToVarNoMap (blockTab t ! b))
           \<and> blockVarNoToVarNoMap (blockTab t ! b) ! nat (blockVarNo r) = varNo r"
      by (simp add: rb)
  qed
qed





lemma generateOutputArray_writerStart:
  assumes "rootInv t" "parentsBelow (blockTab t)" "sessionOk s" "template s = t"
  shows "generateOutputArray fuel s =
     (case writeBlockInstances fuel (writerStart s) [] 0 (- 1) of
        None \<Rightarrow> None
      | Some (Some e, s2, out) \<Rightarrow> Some (Inl e, s2)
      | Some (None, s2, out) \<Rightarrow> Some (Inr out, s2))"
proof -
  have bt: "0 < length (blockTab t)" using assms(1) by (simp add: rootInv_def)
  then have ne: "blockDynTab s \<noteq> []" using assms(3,4) by (auto simp: sessionOk_def)
  let ?s1 = "if instances (blockDynTab s ! 0) = 0 then added s 0 else s"
  have "parentBlockNo (blockTab (template s) ! 0) = - 1"
    using assms(1,4) by (simp add: rootInv_def)
  then have add: "(if instances (blockDynTab s ! 0) = 0 then addBlockByNo s 0 else (None, s)) = (None, ?s1)"
    using addBlockByNo_cases [of s 0] assms(2,3,4) bt by simp
  show ?thesis
    using ne unfolding generateOutputArray_def add writerStart_def Let_def by simp
qed


lemma cursor_first_noCursor:
  "d\<lparr> currBlockInstNo := firstBlockInstNo d \<rparr>
     = (noCursor d)\<lparr> currBlockInstNo := firstBlockInstNo (noCursor d) \<rparr>"
  by (simp add: noCursor_def)








lemmas write_Suc = writeBlockInstances.simps(2) writeBlockInstance.simps(2) writeChunks.simps(2)

lemma write_mono_Suc:
  "(\<forall>s out b L r. writeBlockInstances fuel s out b L = Some r
        \<longrightarrow> writeBlockInstances (Suc fuel) s out b L = Some r)
   \<and> (\<forall>s out i r. writeBlockInstance fuel s out i = Some r
        \<longrightarrow> writeBlockInstance (Suc fuel) s out i = Some r)
   \<and> (\<forall>s out bitr btr tPos sb vr r. writeChunks fuel s out bitr btr tPos sb vr = Some r
        \<longrightarrow> writeChunks (Suc fuel) s out bitr btr tPos sb vr = Some r)"
proof (induction fuel)
  case 0
  show ?case by simp
next
  case (Suc fuel)
  have ih1: "\<And>s out b L r. writeBlockInstances fuel s out b L = Some r
     \<Longrightarrow> writeBlockInstances (Suc fuel) s out b L = Some r"
    using Suc by fast
  have ih2: "\<And>s out i r. writeBlockInstance fuel s out i = Some r
     \<Longrightarrow> writeBlockInstance (Suc fuel) s out i = Some r"
    using Suc by fast
  have ih3: "\<And>s out bitr btr tPos sb vr r. writeChunks fuel s out bitr btr tPos sb vr = Some r
     \<Longrightarrow> writeChunks (Suc fuel) s out bitr btr tPos sb vr = Some r"
    using Suc by fast
  have p1: "writeBlockInstances (Suc (Suc fuel)) s out b L = Some r"
    if "writeBlockInstances (Suc fuel) s out b L = Some r" for s out b L r
  proof (cases "writeBlockInstancesStep s b L")
    case (InstThrow e)
    then show ?thesis using that by simp
  next
    case InstBreak
    then show ?thesis using that by simp
  next
    case (InstWrite i)
    note u = that [unfolded write_Suc(1) [of fuel s out b L]]
    from u InstWrite obtain e s1 out1 where w: "writeBlockInstance fuel s out i = Some (e, s1, out1)"
      by (auto simp del: write_Suc split: option.splits)
    note w' = ih2 [OF w]
    show ?thesis
    proof (cases e)
      case None
      with u InstWrite w have "writeBlockInstances fuel (advanceCursor s1 b i) out1 b L = Some r"
        by (simp del: write_Suc)
      from ih1 [OF this] show ?thesis
        unfolding write_Suc(1) [of "Suc fuel" s out b L]
        using InstWrite w' None by (simp del: write_Suc)
    next
      case (Some err)
      then show ?thesis
        unfolding write_Suc(1) [of "Suc fuel" s out b L]
        using u InstWrite w w' by (auto simp del: write_Suc)
    qed
  qed
  have p2: "writeBlockInstance (Suc (Suc fuel)) s out i = Some r"
    if "writeBlockInstance (Suc fuel) s out i = Some r" for s out i r
    unfolding write_Suc(2) [of "Suc fuel" s out i]
    using that [unfolded write_Suc(2) [of fuel s out i]] ih3
    by (auto simp del: write_Suc split: if_splits)
  have p3: "writeChunks (Suc (Suc fuel)) s out bitr btr tPos sb vr = Some r"
    if "writeChunks (Suc fuel) s out bitr btr tPos sb vr = Some r" for s out bitr btr tPos sb vr r
  proof (cases "writeChunkStep s out bitr btr tPos sb vr")
    case (ChunkThrow e out1)
    then show ?thesis using that by simp
  next
    case SkipVarRef
    then show ?thesis
      unfolding write_Suc(3) [of "Suc fuel" s out bitr btr tPos sb vr]
      using that [unfolded write_Suc(3) [of fuel s out bitr btr tPos sb vr]]
        ih3 [of s out bitr btr tPos sb "vr + 1" r] by (simp del: write_Suc)
  next
    case SkipSubBlock
    then show ?thesis
      unfolding write_Suc(3) [of "Suc fuel" s out bitr btr tPos sb vr]
      using that [unfolded write_Suc(3) [of fuel s out bitr btr tPos sb vr]]
        ih3 [of s out bitr btr tPos "sb + 1" vr r] by (simp del: write_Suc)
  next
    case (ChunkEnd out1)
    then show ?thesis using that by simp
  next
    case (ChunkVariable out1 tPos')
    then show ?thesis
      unfolding write_Suc(3) [of "Suc fuel" s out bitr btr tPos sb vr]
      using that [unfolded write_Suc(3) [of fuel s out bitr btr tPos sb vr]]
        ih3 [of s out1 bitr btr tPos' sb "vr + 1" r] by (simp del: write_Suc)
  next
    case (ChunkSubBlock out1 tPos')
    note u = that [unfolded write_Suc(3) [of fuel s out bitr btr tPos sb vr]]
    from u ChunkSubBlock obtain e s1 out2 where
      w: "writeBlockInstances fuel s out1 sb (int (instanceLevel bitr)) = Some (e, s1, out2)"
      by (auto simp del: write_Suc split: option.splits)
    note w' = ih1 [OF w]
    show ?thesis
    proof (cases e)
      case None
      with u ChunkSubBlock w have "writeChunks fuel s1 out2 bitr btr tPos' (sb + 1) vr = Some r"
        by (simp del: write_Suc)
      from ih3 [OF this] show ?thesis
        unfolding write_Suc(3) [of "Suc fuel" s out bitr btr tPos sb vr]
        using ChunkSubBlock w' None by (simp del: write_Suc)
    next
      case (Some err)
      then show ?thesis
        unfolding write_Suc(3) [of "Suc fuel" s out bitr btr tPos sb vr]
        using u ChunkSubBlock w w' by (auto simp del: write_Suc)
    qed
  qed
  show ?case using p1 p2 p3 by blast
qed

lemma writeBlockInstances_mono:
  assumes "writeBlockInstances fuel s out b L = Some r" "fuel \<le> fuel'"
  shows "writeBlockInstances fuel' s out b L = Some r"
proof -
  have "writeBlockInstances (fuel + k) s out b L = Some r" for k
  proof (induction k)
    case 0
    show ?case using assms(1) by simp
  next
    case (Suc k)
    then show ?case using write_mono_Suc [of "fuel + k"] unfolding add_Suc_right by fast
  qed
  from this [of "fuel' - fuel"] show ?thesis using assms(2) by simp
qed

lemma substring_all [simp]: "substring xs 0 (length xs) = xs"
  by (simp add: substring_def)

lemma instancesOf_Nil [simp]: "instancesOf [] c = []"
  by (simp add: instancesOf_def)

lemma parse_plain:
  assumes load: "loadTemplateFile pp (mainTemplateName pp) = Some text"
    and no1: "indexOf text cmdStartStr 0 = - 1"
    and no2: "shortFormEnabled pp \<longrightarrow> indexOf text cmdStartStrShort 0 = - 1"
    and no3: "indexOf text ''${'' 0 = - 1"
  shows "parseTemplate pp (Suc f) = Some (Inr (plainTemplate text))"
  using assms
  by (simp add: parseTemplate_def parseTemplateScan_def parseTemplateCommandsStep_def
      beginMainBlock_def initParsing_def registerBlock_def modifyBlock_def Let_def
      conditionalExclude_def isCondEnabled_def endMainBlock_def checkBlockDefinitionsComplete_def
      associateVariablesWithBlocks_def parserResult_def int16Set_def maxNestingLevel_def maxCondLevels_def
      associateLoop.simps plainTemplate_def
      split: if_splits)








lemma relCall_simps [simp]:
  "relCall n None None"
  "relCall n (Some (a, s1)) (Some (a', s1')) \<longleftrightarrow> a = a' \<and> agreeExcept n s1 s1'"
  "\<not> relCall n None (Some y)" "\<not> relCall n (Some y) None"
  by (simp_all add: relCall_def split: prod.splits)

lemma relCall_map:
  "relCall n r r' \<Longrightarrow> relCall n (map_option (map_prod f id) r) (map_option (map_prod f id) r')"
  by (cases r; cases r') (auto simp: relCall_def split: prod.splits)

lemma agreeExcept_refl [simp]: "agreeExcept n s s"
  by (simp add: agreeExcept_def)

lemma valueGet_valueSet:
  "valueGet (valueSet xs i v) j = (if j = int i then v else valueGet xs j)"
  by (auto simp: valueGet_def valueSet_def nth_append)

lemma valueGet_replicate [simp]: "valueGet (replicate k []) j = []"
  by (simp add: valueGet_def)

lemma sessionOk_sameButValues: "sameButValues s s' \<Longrightarrow> sessionOk s \<Longrightarrow> sessionOk s'"
  unfolding sameButValues_def sessionOk_def by metis

lemma agree_setVariable:
  assumes "agreeExcept n s s'" "m = n \<or> v = v'"
  shows "agreeExcept n (s\<lparr> varValuesTab := valueSet (varValuesTab s) m v \<rparr>)
           (s'\<lparr> varValuesTab := valueSet (varValuesTab s') m v' \<rparr>)"
  using assms by (auto simp: agreeExcept_def sameButValues_def valueGet_valueSet)

lemma agree_reset:
  assumes "agreeExcept n s s'"
  shows "agreeExcept n (reset s) (reset s')"
  using assms by (simp add: agreeExcept_def sameButValues_def reset_def)

lemma agree_newInstance:
  assumes "agreeExcept n s s'" "n \<notin> set (blockVarNoToVarNoMap (blockTab (template s) ! b))"
  shows "newInstance s' b = newInstance s b"
proof -
  have "map (\<lambda>m. valueGet (varValuesTab s') (int m)) (blockVarNoToVarNoMap (blockTab (template s) ! b))
      = map (\<lambda>m. valueGet (varValuesTab s) (int m)) (blockVarNoToVarNoMap (blockTab (template s) ! b))"
    using assms by (intro map_cong) (auto simp: agreeExcept_def)
  then show ?thesis
    using assms(1) by (simp add: newInstance_def Let_def agreeExcept_def sameButValues_def)
qed

lemma agree_addedRec:
  assumes "agreeExcept n s s'"
  shows "agreeExcept n (addedRec s b r) (addedRec s' b r)"
  using assms by (simp add: agreeExcept_def sameButValues_def addedRec_def Let_def)

lemma agree_partialInstance:
  "agreeExcept n s s' \<Longrightarrow> partialInstance s' b = partialInstance s b"
  by (simp add: partialInstance_def agreeExcept_def sameButValues_def)

lemma agree_addBlockByNo:
  assumes "sessionOk s" "parentsBelow (blockTab (template s))" "b < length (blockTab (template s))"
    and "agreeExcept n s s'" "n \<notin> set (blockVarNoToVarNoMap (blockTab (template s) ! b))"
  shows "fst (addBlockByNo s' (int b)) = fst (addBlockByNo s (int b))"
    and "agreeExcept n (snd (addBlockByNo s (int b))) (snd (addBlockByNo s' (int b)))"
proof -
  have sb: "sameButValues s s'" using assms(4) by (simp add: agreeExcept_def)
  then have t: "template s' = template s" by (simp add: sameButValues_def)
  have ok': "sessionOk s'" using sb assms(1) by (rule sessionOk_sameButValues)
  note c = addBlockByNo_cases [OF assms(1-3)]
  note c' = addBlockByNo_cases [OF ok', unfolded t, OF assms(2,3)]
  note ni = agree_newInstance [OF assms(4,5)]
  note pi = agree_partialInstance [OF assms(4), of b]
  show "fst (addBlockByNo s' (int b)) = fst (addBlockByNo s (int b))"
    unfolding c c' by simp
  show "agreeExcept n (snd (addBlockByNo s (int b))) (snd (addBlockByNo s' (int b)))"
    unfolding c c' using agree_addedRec [OF assms(4)] by (simp add: added_def ni pi)
qed

lemma agree_addBlocksByNo:
  assumes "namesInv t" "parentsBelow (blockTab t)"
    and nm: "\<forall>b < length (blockTab t). blockName (blockTab t ! b) \<noteq> None
               \<longrightarrow> n \<notin> set (blockVarNoToVarNoMap (blockTab t ! b))"
  shows "sessionOk s \<Longrightarrow> template s = t \<Longrightarrow> agreeExcept n s s' \<Longrightarrow> k \<le> length (blockTab t) \<Longrightarrow>
     relCall n (addBlocksByNo fuel s (prevNamed (blockTab t) nm' k))
       (addBlocksByNo fuel s' (prevNamed (blockTab t) nm' k))"
proof (induction k arbitrary: fuel s s')
  case 0
  then show ?case by (cases fuel) simp_all
next
  case (Suc k)
  have le: "k \<le> length (blockTab t)" using Suc.prems by simp
  show ?case
  proof (cases "blockName (blockTab t ! k) = Some nm'")
    case False
    from Suc.IH [OF Suc.prems(1-3) le, of fuel] show ?thesis using False by simp
  next
    case True
    have kb: "k < length (blockTab (template s))" using Suc.prems by simp
    have pb: "parentsBelow (blockTab (template s))" using assms(2) Suc.prems by simp
    have t': "template s' = t" using Suc.prems(2,3) by (simp add: agreeExcept_def sameButValues_def)
    have nk: "n \<notin> set (blockVarNoToVarNoMap (blockTab (template s) ! k))"
      using nm kb True Suc.prems(2) by auto
    have nx: "nextWithSameName (blockTab t ! k) = prevNamed (blockTab t) nm' k"
      using assms(1) kb True Suc.prems by (simp add: namesInv_def)
    note ab = addBlockByNo_sessionOk [OF Suc.prems(1) pb kb]
    note ag = agree_addBlockByNo [OF Suc.prems(1) pb kb Suc.prems(3) nk]
    show ?thesis
    proof (cases fuel)
      case 0
      then show ?thesis by simp
    next
      case (Suc f)
      obtain e s1 where p: "addBlockByNo s (int k) = (e, s1)" by (cases "addBlockByNo s (int k)")
      obtain e' s1' where p': "addBlockByNo s' (int k) = (e', s1')" by (cases "addBlockByNo s' (int k)")
      have e: "e' = e" and a1: "agreeExcept n s1 s1'" using ag p p' by simp_all
      have t1: "template s1 = t" "sessionOk s1" using ab p Suc.prems(2) by simp_all
      have t1': "template s1' = t" using a1 t1 by (simp add: agreeExcept_def sameButValues_def)
      show ?thesis
      proof (cases e)
        case (Some err)
        then show ?thesis using True p p' e a1 Suc by simp
      next
        case None
        from Suc.IH [OF t1(2,1) a1 le, of f] show ?thesis
          using True p p' e None Suc nx t1 t1' by simp
      qed
    qed
  qed
qed

lemma map_prod_id_eq: "map_prod f id p = (a, s1) \<Longrightarrow> s1 = snd p"
  by (cases p) auto

lemma callMethod_sessionOk:
  assumes "namesInv t" "rootInv t" "parentsBelow (blockTab t)"
    and "sessionOk s" "template s = t" "callMethod f s c = Some (a, s1)"
  shows "sessionOk s1 \<and> template s1 = t"
proof (cases c)
  case (SetVariable n v)
  then have "s1 = snd (setVariable s n v)" using assms(6) by (auto dest: map_prod_id_eq)
  then show ?thesis using assms(4,5)
    by (simp add: sessionOk_setVariable setVariable_sameSession_parts)
next
  case (SetVariableOpt n v)
  then have "s1 = snd (setVariableOpt s n v)" using assms(6) by (auto dest: map_prod_id_eq)
  then show ?thesis using assms(4,5)
    by (simp add: sessionOk_setVariable setVariable_sameSession_parts)
next
  case (AddBlock n)
  then obtain r where "addBlock f s n = Some (r, s1)" using assms(6) by auto
  then show ?thesis using addBlock_sessionOk [OF assms(1,3,4,5), of f n r s1] by simp
next
  case (AddBlockOpt n)
  then obtain r where "addBlockOpt f s n = Some (r, s1)" using assms(6) by auto
  then show ?thesis using addBlock_sessionOk [OF assms(1,3,4,5), of f n r s1] by simp
next
  case Reset
  then show ?thesis using assms(4-6) by (auto simp: sessionOk_reset)
next
  case GenerateOutputString
  then obtain r where "generateOutputString f s = Some (r, s1)" using assms(6) by auto
  then show ?thesis using generateOutputString_sessionOk [OF assms(2,3,4,5)] by simp
qed

lemma agree_cursors:
  assumes "agreeExcept n s s'"
  shows "agreeExcept n
     (s\<lparr> blockDynTab := map (\<lambda>bdtr. bdtr\<lparr> currBlockInstNo := firstBlockInstNo bdtr \<rparr>) (blockDynTab s) \<rparr>)
     (s'\<lparr> blockDynTab := map (\<lambda>bdtr. bdtr\<lparr> currBlockInstNo := firstBlockInstNo bdtr \<rparr>) (blockDynTab s') \<rparr>)"
  using assms by (simp add: agreeExcept_def sameButValues_def)

lemma agree_writerStart:
  assumes "agreeExcept n s s'" "n \<notin> set (blockVarNoToVarNoMap (blockTab (template s) ! 0))"
  shows "agreeExcept n (writerStart s) (writerStart s')"
proof -
  have i: "instances (blockDynTab s' ! 0) = instances (blockDynTab s ! 0)"
    using assms(1) by (simp add: agreeExcept_def sameButValues_def)
  have "agreeExcept n (added s 0) (added s' 0)"
    unfolding added_def agree_newInstance [OF assms] using assms(1) by (rule agree_addedRec)
  then have "agreeExcept n (if instances (blockDynTab s ! 0) = 0 then added s 0 else s)
     (if instances (blockDynTab s' ! 0) = 0 then added s' 0 else s')"
    using assms(1) i by simp
  then show ?thesis unfolding writerStart_def Let_def by (rule agree_cursors)
qed

lemma agree_writeBlockInstances:
  assumes "agreeExcept n s s'"
  shows "(writeBlockInstances f s out b L = None \<and> writeBlockInstances f s' out b L = None)
       \<or> (\<exists>e s1 s1' out1. writeBlockInstances f s out b L = Some (e, s1, out1)
             \<and> writeBlockInstances f s' out b L = Some (e, s1', out1) \<and> agreeExcept n s1 s1')"
proof -
  have sb: "sameButValues s s'" using assms by (simp add: agreeExcept_def)
  then have "relW (writeBlockInstances f s out b L) (writeBlockInstances f s' out b L)"
    using write_values [of f] by fast
  then show ?thesis
  proof (cases rule: relW_cases)
    case 1
    then show ?thesis by simp
  next
    case (2 e t1 t2 out1)
    have "sameSession s t1" "sameSession s' t2"
      using 2 by (auto intro: writeBlockInstances_sameSession)
    then have "varValuesTab t1 = varValuesTab s" "varValuesTab t2 = varValuesTab s'"
      by (simp_all add: sameSession_def)
    then have "agreeExcept n t1 t2" using assms 2(3) by (simp add: agreeExcept_def)
    then show ?thesis using 2 by simp
  qed
qed

lemma agree_generateOutputString:
  assumes "rootInv t" "parentsBelow (blockTab t)" "sessionOk s" "template s = t"
    and "agreeExcept n s s'" "n \<notin> set (blockVarNoToVarNoMap (blockTab t ! 0))"
  shows "relCall n (generateOutputString f s) (generateOutputString f s')"
proof -
  have sb: "sameButValues s s'" using assms(5) by (simp add: agreeExcept_def)
  then have t': "template s' = t" using assms(4) by (simp add: sameButValues_def)
  have ok': "sessionOk s'" using sb assms(3) by (rule sessionOk_sameButValues)
  note g = generateOutputArray_writerStart [OF assms(1-4)]
  note g' = generateOutputArray_writerStart [OF assms(1,2) ok' t']
  have "agreeExcept n (writerStart s) (writerStart s')"
    using assms(4,5,6) by (intro agree_writerStart) simp_all
  from agree_writeBlockInstances [OF this, of f "[]" 0 "- 1"]
  show ?thesis
    unfolding generateOutputString_def g g'
    by (auto split: option.splits)
qed

lemma agree_addBlock:
  assumes "namesInv t" "parentsBelow (blockTab t)"
    and nm: "\<forall>b < length (blockTab t). blockName (blockTab t ! b) \<noteq> None
               \<longrightarrow> n \<notin> set (blockVarNoToVarNoMap (blockTab t ! b))"
    and "sessionOk s" "template s = t" "agreeExcept n s s'"
  shows "relCall n (addBlock f s name) (addBlock f s' name)"
    and "relCall n (addBlockOpt f s name) (addBlockOpt f s' name)"
proof -
  have t': "template s' = t" using assms(5,6) by (simp add: agreeExcept_def sameButValues_def)
  have r: "relCall n (addBlocksByNo f s (lookupBlockName t name))
             (addBlocksByNo f s' (lookupBlockName t name))"
    unfolding lookupBlockName_namesInv [OF assms(1)]
    using assms(1,2) nm assms(4-6) by (rule agree_addBlocksByNo) simp
  show "relCall n (addBlock f s name) (addBlock f s' name)"
    using r assms(5,6) t' by (simp add: addBlock_def Let_def)
  show "relCall n (addBlockOpt f s name) (addBlockOpt f s' name)"
    using r assms(5) t' by (simp add: addBlockOpt_def)
qed

lemma agree_set:
  assumes "lookupVariableName t x = int n" "template s = t" "agreeExcept n s s'"
    and "m = x \<or> v = v'"
  shows "fst (setVariable s' m v') = fst (setVariable s m v)"
    and "agreeExcept n (snd (setVariable s m v)) (snd (setVariable s' m v'))"
    and "fst (setVariableOpt s' m v') = fst (setVariableOpt s m v)"
    and "agreeExcept n (snd (setVariableOpt s m v)) (snd (setVariableOpt s' m v'))"
proof -
  have t': "template s' = t" using assms(2,3) by (simp add: agreeExcept_def sameButValues_def)
  have idx: "nat (lookupVariableName t m) = n \<or> v = v'" using assms(1,4) by auto
  then have a: "agreeExcept n
       (s\<lparr> varValuesTab := valueSet (varValuesTab s) (nat (lookupVariableName t m))
                              (formatVariableValue v) \<rparr>)
       (s'\<lparr> varValuesTab := valueSet (varValuesTab s') (nat (lookupVariableName t m))
                              (formatVariableValue v') \<rparr>)"
    using assms(3) by (intro agree_setVariable) auto
  show "fst (setVariable s' m v') = fst (setVariable s m v)"
    "fst (setVariableOpt s' m v') = fst (setVariableOpt s m v)"
    using assms(2) t' by (simp_all add: setVariable_def setVariableOpt_def Let_def)
  show "agreeExcept n (snd (setVariable s m v)) (snd (setVariable s' m v'))"
    "agreeExcept n (snd (setVariableOpt s m v)) (snd (setVariableOpt s' m v'))"
    using assms(2,3) t' a by (simp_all add: setVariable_def setVariableOpt_def Let_def)
qed

lemma relCall_pair:
  "fst p' = fst p \<Longrightarrow> agreeExcept n (snd p) (snd p')
     \<Longrightarrow> relCall n (Some (map_prod f id p)) (Some (map_prod f id p'))"
  by (cases p; cases p') simp

lemma agree_callMethod:
  assumes "namesInv t" "rootInv t" "parentsBelow (blockTab t)"
    and nd: "\<forall>b < length (blockTab t). \<not> dummy (blockTab t ! b)
               \<longrightarrow> n \<notin> set (blockVarNoToVarNoMap (blockTab t ! b))"
    and lk: "lookupVariableName t x = int n"
    and "sessionOk s" "template s = t" "agreeExcept n s s'" "sameCall x c c'"
  shows "relCall n (callMethod f s c) (callMethod f s' c')"
proof -
  have nm: "\<forall>b < length (blockTab t). blockName (blockTab t ! b) \<noteq> None
               \<longrightarrow> n \<notin> set (blockVarNoToVarNoMap (blockTab t ! b))"
    using nd assms(2) by (auto simp: rootInv_def)
  have root: "n \<notin> set (blockVarNoToVarNoMap (blockTab t ! 0))"
    using nd assms(2) by (auto simp: rootInv_def)
  note ab = agree_addBlock [OF assms(1,3) nm assms(6-8)]
  note gen = agree_generateOutputString [OF assms(2,3,6,7,8) root]
  show ?thesis
  proof (cases c)
    case (SetVariable m v)
    then obtain v' where c': "c' = SetVariable m v'" and mv: "m = x \<or> v = v'"
      using assms(9) by (cases c') auto
    show ?thesis unfolding SetVariable c' callMethod.simps
      using agree_set(1,2) [OF lk assms(7,8) mv] by (rule relCall_pair)
  next
    case (SetVariableOpt m v)
    then obtain v' where c': "c' = SetVariableOpt m v'" and mv: "m = x \<or> v = v'"
      using assms(9) by (cases c') auto
    show ?thesis unfolding SetVariableOpt c' callMethod.simps
      using agree_set(3,4) [OF lk assms(7,8) mv] by (rule relCall_pair)
  next
    case (AddBlock name)
    then have c': "c' = c" using assms(9) by (cases c') auto
    show ?thesis unfolding c' AddBlock callMethod.simps using ab(1) by (rule relCall_map)
  next
    case (AddBlockOpt name)
    then have c': "c' = c" using assms(9) by (cases c') auto
    show ?thesis unfolding c' AddBlockOpt callMethod.simps using ab(2) by (rule relCall_map)
  next
    case Reset
    then have c': "c' = c" using assms(9) by (cases c') auto
    show ?thesis unfolding c' Reset using agree_reset [OF assms(8)] by simp
  next
    case GenerateOutputString
    then have c': "c' = c" using assms(9) by (cases c') auto
    show ?thesis unfolding c' GenerateOutputString callMethod.simps using gen by (rule relCall_map)
  qed
qed

lemma agree_runCalls:
  assumes "namesInv t" "rootInv t" "parentsBelow (blockTab t)"
    and nd: "\<forall>b < length (blockTab t). \<not> dummy (blockTab t ! b)
               \<longrightarrow> n \<notin> set (blockVarNoToVarNoMap (blockTab t ! b))"
    and lk: "lookupVariableName t x = int n"
  shows "list_all2 (sameCall x) cs cs' \<Longrightarrow> sessionOk s \<Longrightarrow> template s = t \<Longrightarrow> agreeExcept n s s'
     \<Longrightarrow> relCall n (runCalls f s cs) (runCalls f s' cs')"
proof (induction cs cs' arbitrary: s s' rule: list_all2_induct)
  case Nil
  then show ?case by simp
next
  case (Cons c cs c' cs')
  note r = agree_callMethod [OF assms Cons.prems Cons.hyps(1), of f]
  show ?case
  proof (cases "callMethod f s c")
    case None
    then show ?thesis using r by (cases "callMethod f s' c'") simp_all
  next
    case (Some p)
    obtain a s1 where p: "p = (a, s1)" by (cases p)
    from r Some p obtain s1' where c': "callMethod f s' c' = Some (a, s1')"
      and a1: "agreeExcept n s1 s1'"
      by (cases "callMethod f s' c'") auto
    have ok1: "sessionOk s1" "template s1 = t"
      using callMethod_sessionOk [OF assms(1-3) Cons.prems(1,2)] Some p by simp_all
    from Cons.IH [OF ok1 a1] show ?thesis
      using Some p c' by (simp add: relCall_map)
  qed
qed


lemma generateOutputString_start:
  assumes "rootInv t" "parentsBelow (blockTab t)" "sessionOk s" "template s = t"
  shows "generateOutputString fuel s =
     (case writeBlockInstances fuel (writerStart s) [] 0 (- 1) of
        None \<Rightarrow> None
      | Some (Some e, s2, out) \<Rightarrow> Some (Inl e, s2)
      | Some (None, s2, out) \<Rightarrow> Some (Inr (join [] out), s2))"
  unfolding generateOutputString_def generateOutputArray_writerStart [OF assms]
  by (simp split: option.splits prod.splits)










lemma excludeTemplateRange_cond [simp]:
  "condLevel (excludeTemplateRange b e s) = condLevel s"
  "condEnabled (excludeTemplateRange b e s) = condEnabled s"
  "condPassed (excludeTemplateRange b e s) = condPassed s"
  by (simp_all add: excludeTemplateRange_def registerBlock_def modifyBlock_def Let_def split_beta)


lemma isCondEnabled_excludeTemplateRange [simp]:
  "isCondEnabled (excludeTemplateRange b e s) l = isCondEnabled s l"
  by (simp add: isCondEnabled_def)

lemma isCondEnabled_update [simp]:
  "isCondEnabled (s\<lparr> condLevel := x \<rparr>) l = isCondEnabled s l"
  "isCondEnabled (s\<lparr> condPassed := y \<rparr>) l = isCondEnabled s l"
  by (simp_all add: isCondEnabled_def)






lemma sameVars_refl [simp]: "sameVars s s"
  by (simp add: sameVars_def)

lemma sameVars_trans: "sameVars s s' \<Longrightarrow> sameVars s' s'' \<Longrightarrow> sameVars s s''"
  by (simp add: sameVars_def)

lemma sameVars_basic [simp]:
  "sameVars s (modifyBlock bNo f s)"
  "sameVars s (snd (registerBlock n s))"
  "sameVars s (excludeTemplateRange b e s)"
  "sameVars s (snd (conditionalExclude b e s))"
  by (simp_all add: sameVars_def modifyBlock_def registerBlock_def excludeTemplateRange_def
      conditionalExclude_def Let_def split_beta)

lemma sameVars_updates [simp]:
  "sameVars s (s'\<lparr> condLevel := a \<rparr>) = sameVars s s'"
  "sameVars s (s'\<lparr> condEnabled := b \<rparr>) = sameVars s s'"
  "sameVars s (s'\<lparr> condPassed := c \<rparr>) = sameVars s s'"
  "sameVars s (s'\<lparr> currentNestingLevel := d \<rparr>) = sameVars s s'"
  "sameVars s (s'\<lparr> openBlocksTab := e \<rparr>) = sameVars s s'"
  "sameVars s (s'\<lparr> resumeCmdParsingFromStart := g \<rparr>) = sameVars s s'"
  "sameVars s (s'\<lparr> templateText := h \<rparr>) = sameVars s s'"
  by (simp_all add: sameVars_def)

lemma sameVars_modifyBlock [simp]: "sameVars s (modifyBlock bNo f s') = sameVars s s'"
  by (simp add: sameVars_def modifyBlock_def)

lemma sameVars_registerBlock [simp]: "sameVars s (snd (registerBlock n s')) = sameVars s s'"
  by (simp add: sameVars_def registerBlock_def Let_def)

lemma sameVars_excludeTemplateRange [simp]:
  "sameVars s (excludeTemplateRange b e s') = sameVars s s'"
  by (simp add: sameVars_def excludeTemplateRange_def modifyBlock_def registerBlock_def Let_def
      split_beta)

lemma sameVars_conditionalExclude [simp]:
  "sameVars s (snd (conditionalExclude b e s')) = sameVars s s'"
  by (simp add: conditionalExclude_def)

lemma sameVars_conditionalExclude_left [simp]:
  "sameVars (snd (conditionalExclude b e s)) s' = sameVars s s'"
  using sameVars_basic(4) [of s b e] by (auto simp: sameVars_def)

lemma processIfCmd_sameVars: "processIfCmd pp parms b e s = Inr s' \<Longrightarrow> sameVars s s'"
  by (auto simp: processIfCmd_def Let_def split: if_splits sum.splits)

lemma processElseIfCmd_sameVars: "processElseIfCmd pp parms b e s = Inr s' \<Longrightarrow> sameVars s s'"
  by (auto simp: processElseIfCmd_def Let_def split: if_splits sum.splits)

lemma processElseCmd_sameVars: "processElseCmd parms b e s = Inr s' \<Longrightarrow> sameVars s s'"
  by (auto simp: processElseCmd_def Let_def split: if_splits sum.splits)

lemma processEndIfCmd_sameVars: "processEndIfCmd parms b e s = Inr s' \<Longrightarrow> sameVars s s'"
  by (auto simp: processEndIfCmd_def Let_def split: if_splits sum.splits)

lemma processBeginBlockCmd_sameVars: "processBeginBlockCmd parms b e s = Inr s' \<Longrightarrow> sameVars s s'"
  by (auto simp: processBeginBlockCmd_def Let_def split_beta split: if_splits)

lemma processEndBlockCmd_sameVars: "processEndBlockCmd parms b e s = Inr s' \<Longrightarrow> sameVars s s'"
  by (auto simp: processEndBlockCmd_def Let_def split_beta split: if_splits)

lemma insertSubTemplate_sameVars: "insertSubTemplate pp n b e s = Inr s' \<Longrightarrow> sameVars s s'"
  by (auto simp: insertSubTemplate_def split: option.splits if_splits)

lemma processIncludeCmd_sameVars: "processIncludeCmd pp parms b e s = Inr s' \<Longrightarrow> sameVars s s'"
  by (auto simp: processIncludeCmd_def Let_def split_beta split: if_splits
      dest!: insertSubTemplate_sameVars)

lemma recognized_sameVars:
  "recognized r = Inr (ok, s') \<Longrightarrow> (\<And>s1. r = Inr s1 \<Longrightarrow> sameVars s s1) \<Longrightarrow> sameVars s s'"
  by (cases r) (simp_all add: recognized_def)

lemma processTemplateCommand_sameVars:
  "processTemplateCommand pp cmdLine b e s = Inr (ok, s') \<Longrightarrow> sameVars s s'"
  unfolding processTemplateCommand_def Let_def
  by (auto split: if_splits elim!: recognized_sameVars
      intro: processIfCmd_sameVars processElseIfCmd_sameVars processElseCmd_sameVars
        processEndIfCmd_sameVars processBeginBlockCmd_sameVars processEndBlockCmd_sameVars
        processIncludeCmd_sameVars)

lemma processShortFormTemplateCommand_sameVars:
  "processShortFormTemplateCommand pp cmdLine b e s = Inr (ok, s') \<Longrightarrow> sameVars s s'"
  unfolding processShortFormTemplateCommand_def Let_def
  by (auto split: if_splits elim!: recognized_sameVars
      intro: processIfCmd_sameVars processElseIfCmd_sameVars processElseCmd_sameVars
        processEndIfCmd_sameVars)

lemma conditionalExclude_vars [simp]:
  "varTab (snd (conditionalExclude b e s)) = varTab s"
  "varRefTab (snd (conditionalExclude b e s)) = varRefTab s"
  using sameVars_basic(4) [of s b e] by (simp_all add: sameVars_def)

lemma parseTemplateCommandsStep_sameVars:
  assumes "parseTemplateCommandsStep pp p s = Inr r"
  shows "case r of Break s' \<Rightarrow> sameVars s s' | Continue p' s' \<Rightarrow> sameVars s s'"
  using assms unfolding parseTemplateCommandsStep_def Let_def
  by (auto simp: sameVars_def split: if_splits sum.splits prod.splits
      dest!: processTemplateCommand_sameVars processShortFormTemplateCommand_sameVars)

lemma parseTemplateCommands_sameVars:
  "parseTemplateCommands pp fuel p s = Some (Inr s') \<Longrightarrow> sameVars s s'"
proof (induction fuel arbitrary: p s)
  case 0
  then show ?case by simp
next
  case (Suc fuel)
  show ?case
  proof (cases "parseTemplateCommandsStep pp p s")
    case (Inl e)
    then show ?thesis using Suc.prems by simp
  next
    case (Inr r)
    note sv = parseTemplateCommandsStep_sameVars [OF Inr]
    show ?thesis
    proof (cases r)
      case (Break s1)
      then show ?thesis using Suc.prems Inr sv by simp
    next
      case (Continue p' s1)
      then have "parseTemplateCommands pp fuel p' s1 = Some (Inr s')"
        using Suc.prems Inr by simp
      from Suc.IH [OF this] show ?thesis using sv Continue by (auto intro: sameVars_trans)
    qed
  qed
qed

lemma parseTemplateCommands_noVars:
  assumes "parseTemplateCommands pp fuel 0 (beginMainBlock (initParsing mainText)) = Some (Inr s2)"
    and "endMainBlock s2 = Inr s3"
  shows "varTab s3 = [] \<and> varRefTab s3 = []"
proof -
  have "sameVars (initParsing mainText) (beginMainBlock (initParsing mainText))"
    by (simp add: beginMainBlock_def Let_def split_beta)
  with parseTemplateCommands_sameVars [OF assms(1)]
  have "sameVars (initParsing mainText) s2" by (auto intro: sameVars_trans)
  moreover have "sameVars s2 s3" using assms(2) by (auto simp: endMainBlock_def split: if_splits)
  ultimately have "sameVars (initParsing mainText) s3" by (rule sameVars_trans)
  then show ?thesis by (simp add: sameVars_def initParsing_def)
qed

lemma indexOf_minus [simp]: "nat p + 1 - 1 = nat p"
  by simp

lemma register_references:
  assumes "varsInv s"
  shows "references (registerVariableReference n b e s) = references s @ [(n, b, e)]"
proof -
  let ?s1 = "registerVariableReference n b e s"
  have old: "varTab ?s1 ! varNo r = varTab s ! varNo r" if "r \<in> set (varRefTab s)" for r
  proof -
    have "varNo r < length (varTab s)" using assms that by (simp add: varsInv_def)
    then show ?thesis
      by (simp add: registerVariableReference_def registerVariable_def Let_def split_beta nth_append)
  qed
  have new: "varRefTab ?s1 = varRefTab s @ [last (varRefTab ?s1)]"
    "vrTPosBegin (last (varRefTab ?s1)) = b" "vrTPosEnd (last (varRefTab ?s1)) = e"
    by (simp_all add: registerVariableReference_def registerVariable_def Let_def split_beta)
  have nm: "varTab ?s1 ! varNo (last (varRefTab ?s1)) = n"
  proof (cases "lookupVariableName s n = - 1")
    case True
    then show ?thesis
      by (simp add: registerVariableReference_def registerVariable_def Let_def)
  next
    case False
    then obtain v where v: "varNameToNoMap s n = Some v"
      by (auto simp: lookupVariableName_def split: option.splits)
    then have "v < length (varTab s)" "varTab s ! v = n" using assms unfolding varsInv_def by blast+
    then show ?thesis
      using False v by (simp add: registerVariableReference_def Let_def lookupVariableName_def)
  qed
  have "references ?s1 = map (\<lambda>r. (varTab ?s1 ! varNo r, vrTPosBegin r, vrTPosEnd r))
      (varRefTab s @ [last (varRefTab ?s1)])"
    unfolding references_def using new(1) by simp
  also have "\<dots> = references s @ [(n, b, e)]"
    using old new(2,3) nm by (simp add: references_def)
  finally show ?thesis .
qed

lemma parseTemplateVariables_references:
  "parseTemplateVariables fuel p s = Some (Inr s') \<Longrightarrow> varsInv s \<Longrightarrow>
     references s' = references s @ placeholdersFrom (templateText s) p"
proof (induction fuel arbitrary: p s)
  case 0
  then show ?case by simp
next
  case (Suc fuel)
  show ?case
  proof (cases "indexOf (templateText s) ''${'' p = - 1")
    case True
    with Suc.prems show ?thesis by (simp add: placeholdersFrom.simps [of _ p])
  next
    case False
    let ?p0 = "nat (indexOf (templateText s) ''${'' p)"
    let ?p1 = "indexOf (templateText s) ''}'' ?p0"
    let ?name = "trim (substring (templateText s) (?p0 + 2) (nat ?p1))"
    let ?s1 = "registerVariableReference ?name ?p0 (nat ?p1 + 1) s"
    from Suc.prems(1) False have p1: "?p1 \<noteq> - 1"
      and rec: "parseTemplateVariables fuel (nat ?p1 + 1) ?s1 = Some (Inr s')"
      by (simp_all add: Let_def split: if_splits)
    have "varsInv ?s1" using Suc.prems(2) by (rule registerVariableReference_varsInv)
    from Suc.IH [OF rec this]
    have "references s' = references ?s1 @ placeholdersFrom (templateText s) (nat ?p1 + 1)" by simp
    then show ?thesis
      using False p1 register_references [OF Suc.prems(2)]
      by (simp add: placeholdersFrom.simps [of _ p])
  qed
qed

lemma references_strip:
  fixes s s' :: "'a ParsedTemplate_scheme"
  assumes "map stripBlocks (varRefTab s') = map stripBlocks (varRefTab s)" "varTab s' = varTab s"
  shows "references s' = references s"
proof -
  have r: "references x = map (\<lambda>r. (varTab x ! varNo r, vrTPosBegin r, vrTPosEnd r))
      (map stripBlocks (varRefTab x))" for x :: "'a ParsedTemplate_scheme"
    by (simp add: references_def comp_def stripBlocks_def)
  show ?thesis unfolding r [of s'] r [of s] assms ..
qed

lemma parseTemplate_references:
  assumes "parseTemplate pp fuel = Some (Inr t)"
  shows "references t = placeholders (templateText t)"
proof -
  from assms obtain s5 s6 where
    scan: "parseTemplateScan pp fuel = Some (Inr s5)"
    and assoc: "associateLoop fuel 0 0 1 s5 = Some (Inr s6)"
    and t: "t = parserResult s6"
    by (auto simp: parseTemplate_def associateVariablesWithBlocks_def
        split: option.splits sum.splits)
  from scan obtain mainText s2 s3 s4 where
    cmds: "parseTemplateCommands pp fuel 0 (beginMainBlock (initParsing mainText)) = Some (Inr s2)"
    and emb: "endMainBlock s2 = Inr s3"
    and chk: "checkBlockDefinitionsComplete s3 = Inr s4"
    and vars: "parseTemplateVariables fuel 0 s4 = Some (Inr s5)"
    by (auto simp: parseTemplateScan_def split: option.splits sum.splits if_splits)
  have "cmdInv s2" using cmds cmdInv_beginMainBlock by (rule parseTemplateCommands_cmdInv)
  with emb have i3: "cmdInv s3" using endMainBlock_cmdInv by blast
  have s4: "s4 = s3" using chk by (rule checkBlockDefinitionsComplete_Inr)
  have v4: "varsInv s4" using i3 s4 by (simp add: cmdInv_def)
  have e4: "references s4 = []"
    using parseTemplateCommands_noVars [OF cmds emb] s4 by (simp add: references_def)
  from parseTemplateVariables_references [OF vars v4] e4
  have r5: "references s5 = placeholders (templateText s4)" by (simp add: placeholders_def)
  have t5: "templateText s5 = templateText s4"
    using parseTemplateVariables_inv [OF vars v4] by simp
  have i5: "mapsEmpty s5" using parseTemplateScan_inv [OF scan] by simp
  have a0: "assocInv s5 0" using i5 by (simp add: assocInv_def mapsEmpty_def)
  from associateLoop_inv [OF assoc a0]
  have sb: "map stripBlocks (varRefTab s6) = map stripBlocks (varRefTab s5)"
    and fr: "templateText s6 = templateText s5" "varTab s6 = varTab s5"
    by simp_all
  have "references s6 = references s5" using sb fr(2) by (rule references_strip)
  then show ?thesis using r5 t5 fr(1) by (simp add: t references_def)
qed

lemma writeChunkStep_variable:
  assumes "writeChunkStep s out bitr btr tPos sb vr = ChunkVariable out' tPos'"
  shows "0 \<le> vr \<and> nat vr < length (varRefTab (template s))
     \<and> vrBlockNo (varRefTab (template s) ! nat vr) = blockNo bitr
     \<and> tPos' = vrTPosEnd (varRefTab (template s) ! nat vr)
     \<and> (\<exists>vals. blockVarTab bitr = Some vals
           \<and> out' = (if tPos < vrTPosBegin (varRefTab (template s) ! nat vr)
                     then out @ [substring (templateText (template s)) tPos
                                   (vrTPosBegin (varRefTab (template s) ! nat vr))]
                     else out)
                    @ (if valueGet vals (blockVarNo (varRefTab (template s) ! nat vr)) = [] then []
                       else [valueGet vals (blockVarNo (varRefTab (template s) ! nat vr))]))"
  using assms unfolding writeChunkStep_def Let_def
  by (auto split: if_splits option.splits ChunkKind.splits prod.splits)

lemma valueGet_map:
  "0 \<le> i \<Longrightarrow> nat i < length xs \<Longrightarrow> valueGet (map f xs) i = f (xs ! nat i)"
  by (simp add: valueGet_def)

lemma agreeExcept_trans:
  "agreeExcept n s s' \<Longrightarrow> agreeExcept n s' s'' \<Longrightarrow> agreeExcept n s s''"
  by (simp add: agreeExcept_def sameButValues_def)

lemma runCalls_append:
  "runCalls f s (cs @ cs') =
     (case runCalls f s cs of
        None \<Rightarrow> None
      | Some (rs, s1) \<Rightarrow> map_option (map_prod ((@) rs) id) (runCalls f s1 cs'))"
proof (induction cs arbitrary: s)
  case Nil
  have "map_prod ((@) []) id = (id :: apiResult list \<times> MiniTemplator \<Rightarrow> _)"
    by (auto simp: fun_eq_iff)
  then show ?case by (simp add: option.map_id)
next
  case (Cons c cs)
  show ?case
  proof (cases "callMethod f s c")
    case None
    then show ?thesis by simp
  next
    case (Some p)
    obtain r s1 where p: "p = (r, s1)" by (cases p)
    show ?thesis
    proof (cases "runCalls f s1 cs")
      case None
      then show ?thesis using Some p Cons [of s1] by simp
    next
      case (Some q)
      obtain rs s2 where q: "q = (rs, s2)" by (cases q)
      show ?thesis
        using \<open>callMethod f s c = Some p\<close> p Some q Cons [of s1]
        by (cases "runCalls f s2 cs'") auto
    qed
  qed
qed

lemma set_call_agree:
  assumes "varsInv t" "length (varTab t) = 1" "template s = t" "isSetVariable c"
  shows "\<exists>r s'. callMethod f s c = Some (r, s') \<and> agreeExcept 0 s s'"
proof -
  have lk: "lookupVariableName t n = - 1 \<or> lookupVariableName t n = 0" for n
  proof (cases "varNameToNoMap t n")
    case None
    then show ?thesis by (simp add: lookupVariableName_def)
  next
    case (Some v)
    then have "v < length (varTab t)" using assms(1) unfolding varsInv_def by blast
    then show ?thesis using Some assms(2) by (simp add: lookupVariableName_def)
  qed
  have a: "agreeExcept 0 s (s\<lparr> varValuesTab := valueSet (varValuesTab s) 0 w \<rparr>)" for w
    by (simp add: agreeExcept_def sameButValues_def valueGet_valueSet)
  show ?thesis
  proof (cases c)
    case (SetVariable n v)
    then show ?thesis
      using lk [of n] a assms(3) by (auto simp: setVariable_def Let_def)
  next
    case (SetVariableOpt n v)
    then show ?thesis
      using lk [of n] a assms(3) by (auto simp: setVariableOpt_def Let_def)
  qed (use assms(4) in simp_all)
qed

lemma set_calls_agree:
  assumes "varsInv t" "length (varTab t) = 1"
  shows "\<forall>c \<in> set cs. isSetVariable c \<Longrightarrow> template s = t \<Longrightarrow>
     \<exists>rs s'. runCalls f s cs = Some (rs, s') \<and> agreeExcept 0 s s'"
proof (induction cs arbitrary: s)
  case Nil
  show ?case by simp
next
  case (Cons c cs)
  from set_call_agree [OF assms Cons.prems(2), of c f] Cons.prems(1)
  obtain r s1 where c: "callMethod f s c = Some (r, s1)" and a: "agreeExcept 0 s s1" by auto
  have t1: "template s1 = t" using a Cons.prems(2) by (simp add: agreeExcept_def sameButValues_def)
  from Cons.IH [OF _ t1] Cons.prems(1)
  obtain rs s' where r: "runCalls f s1 cs = Some (rs, s')" and a': "agreeExcept 0 s1 s'" by auto
  show ?case using c r agreeExcept_trans [OF a a'] by simp
qed

lemma generateOutputString_mono:
  assumes "rootInv t" "parentsBelow (blockTab t)" "sessionOk s" "template s = t"
    and "generateOutputString f s = Some r" "f \<le> f'"
  shows "generateOutputString f' s = Some r"
proof -
  from assms(5) obtain w where w: "writeBlockInstances f (writerStart s) [] 0 (- 1) = Some w"
    unfolding generateOutputString_start [OF assms(1-4)] by (auto split: option.splits)
  have "writeBlockInstances f' (writerStart s) [] 0 (- 1) = Some w"
    using w assms(6) by (rule writeBlockInstances_mono)
  then show ?thesis
    using assms(5) w unfolding generateOutputString_start [OF assms(1-4)] by simp
qed

lemma snapshotExample_parse:
  "\<exists>t. parseTemplate snapshotExample 20 = Some (Inr t)
     \<and> templateText t = ''<!-- $beginBlock row -->[${x}]<!-- $endBlock row -->''
     \<and> varTab t = [''x'']
     \<and> varRefTab t = [\<lparr> varNo = 0, vrTPosBegin = 25, vrTPosEnd = 29, vrBlockNo = 1,
                         blockVarNo = 0 \<rparr>]
     \<and> blockTab t =
         [\<lparr> blockName = None, nextWithSameName = - 1, tPosBegin = 0,
            tPosContentsBegin = 0, tPosContentsEnd = 52, tPosEnd = 52,
            nestingLevel = 0, parentBlockNo = - 1, definitionIsOpen = False,
            blockVarNoToVarNoMap = [], firstVarRefNo = - 1, dummy = False \<rparr>,
          \<lparr> blockName = Some ''row'', nextWithSameName = - 1, tPosBegin = 0,
            tPosContentsBegin = 24, tPosContentsEnd = 30, tPosEnd = 52,
            nestingLevel = 1, parentBlockNo = 0, definitionIsOpen = False,
            blockVarNoToVarNoMap = [0], firstVarRefNo = 0, dummy = False \<rparr>]
     \<and> lookupVariableName t ''x'' = 0"
proof -
  have "case parseTemplate snapshotExample 20 of
          Some (Inr t) \<Rightarrow>
            templateText t = ''<!-- $beginBlock row -->[${x}]<!-- $endBlock row -->''
            \<and> varTab t = [''x'']
            \<and> varRefTab t = [\<lparr> varNo = 0, vrTPosBegin = 25, vrTPosEnd = 29, vrBlockNo = 1,
                                blockVarNo = 0 \<rparr>]
            \<and> blockTab t =
                [\<lparr> blockName = None, nextWithSameName = - 1, tPosBegin = 0,
                   tPosContentsBegin = 0, tPosContentsEnd = 52, tPosEnd = 52,
                   nestingLevel = 0, parentBlockNo = - 1, definitionIsOpen = False,
                   blockVarNoToVarNoMap = [], firstVarRefNo = - 1, dummy = False \<rparr>,
                 \<lparr> blockName = Some ''row'', nextWithSameName = - 1, tPosBegin = 0,
                   tPosContentsBegin = 24, tPosContentsEnd = 30, tPosEnd = 52,
                   nestingLevel = 1, parentBlockNo = 0, definitionIsOpen = False,
                   blockVarNoToVarNoMap = [0], firstVarRefNo = 0, dummy = False \<rparr>]
            \<and> lookupVariableName t ''x'' = 0
        | _ \<Rightarrow> False"
    by code_simp
  then show ?thesis by (auto split: option.splits sum.splits)
qed

lemma snapshotExample_generate:
  assumes "templateText t = ''<!-- $beginBlock row -->[${x}]<!-- $endBlock row -->''"
    and "varTab t = [''x'']"
    and "varRefTab t = [\<lparr> varNo = 0, vrTPosBegin = 25, vrTPosEnd = 29, vrBlockNo = 1,
                         blockVarNo = 0 \<rparr>]"
    and "blockTab t =
         [\<lparr> blockName = None, nextWithSameName = - 1, tPosBegin = 0,
            tPosContentsBegin = 0, tPosContentsEnd = 52, tPosEnd = 52,
            nestingLevel = 0, parentBlockNo = - 1, definitionIsOpen = False,
            blockVarNoToVarNoMap = [], firstVarRefNo = - 1, dummy = False \<rparr>,
          \<lparr> blockName = Some ''row'', nextWithSameName = - 1, tPosBegin = 0,
            tPosContentsBegin = 24, tPosContentsEnd = 30, tPosEnd = 52,
            nestingLevel = 1, parentBlockNo = 0, definitionIsOpen = False,
            blockVarNoToVarNoMap = [0], firstVarRefNo = 0, dummy = False \<rparr>]"
  shows "\<exists>m. generateOutputString 12
            (added ((newMiniTemplator t)\<lparr> varValuesTab := [w] \<rparr>) (Suc 0))
           = Some (Inr (''['' @ w @ '']''), m)"
  using assms
  by (cases "w = []")
    (simp_all add: generateOutputString_def generateOutputArray_def newMiniTemplator_def reset_def
      addBlockByNo_def Let_def emptyBlockDynTabRec_def emptyBlockInstTabRec_def
      writeBlockInstancesStep_def writeChunkStep_def advanceCursor_def added_def addedRec_def
      newInstance_def valueGet_def substring_def eval_nat_numeral)

lemma snapshotExample_output:
  assumes p: "parseTemplate snapshotExample 20 = Some (Inr t)"
    and cs: "\<forall>c \<in> set cs. isSetVariable c" and f: "12 \<le> f"
  shows "\<exists>rs m. runCalls f (newMiniTemplator t)
            ([SetVariable ''x'' v, AddBlock ''row''] @ cs @ [GenerateOutputString])
          = Some (rs @ [Output (''['' @ formatVariableValue v @ '']'')], m)"
proof -
  from snapshotExample_parse p have
    tt: "templateText t = ''<!-- $beginBlock row -->[${x}]<!-- $endBlock row -->''"
    and vt: "varTab t = [''x'']"
    and rt: "varRefTab t = [\<lparr> varNo = 0, vrTPosBegin = 25, vrTPosEnd = 29, vrBlockNo = 1,
                         blockVarNo = 0 \<rparr>]"
    and bt: "blockTab t =
         [\<lparr> blockName = None, nextWithSameName = - 1, tPosBegin = 0,
            tPosContentsBegin = 0, tPosContentsEnd = 52, tPosEnd = 52,
            nestingLevel = 0, parentBlockNo = - 1, definitionIsOpen = False,
            blockVarNoToVarNoMap = [], firstVarRefNo = - 1, dummy = False \<rparr>,
          \<lparr> blockName = Some ''row'', nextWithSameName = - 1, tPosBegin = 0,
            tPosContentsBegin = 24, tPosContentsEnd = 30, tPosEnd = 52,
            nestingLevel = 1, parentBlockNo = 0, definitionIsOpen = False,
            blockVarNoToVarNoMap = [0], firstVarRefNo = 0, dummy = False \<rparr>]"
    and lk: "lookupVariableName t ''x'' = 0"
    by auto
  have ok: "templateOk t" using p by (rule parseTemplate_templateOk)
  then have t: "namesInv t" "rootInv t" "parentsBelow (blockTab t)" "varsInv t"
    "parentsOk (blockTab t)"
    using bt by (simp_all add: templateOk_def)
  let ?w = "formatVariableValue v"
  let ?s0 = "(newMiniTemplator t)\<lparr> varValuesTab := [?w] \<rparr>"
  let ?s1 = "added ?s0 (Suc 0)"
  have set0: "setVariable (newMiniTemplator t) ''x'' v = (None, ?s0)"
    using lk vt by (simp add: setVariable_def Let_def newMiniTemplator_def reset_def valueSet_def)
  have ok0: "sessionOk ?s0" "template ?s0 = t"
    using sessionOk_setVariable(1) [OF sessionOk_new, of t "''x''" v] set0 by simp_all
  have bn: "blocksNamed ''row'' t = [1]"
    using bt by (simp add: blocksNamed_def)
  have f2: "length (blocksNamed ''row'' t) < f" using f bn by simp
  have lb: "lookupBlockName t ''row'' \<noteq> - 1"
    using t(1) bn by (simp add: lookupBlockName_none)
  have add: "addBlock f ?s0 ''row'' = Some (None, ?s1)"
    using addBlocksByNo_lookup [OF t(1,5,3) ok0, of f "''row''"] f2 lb bn ok0(2)
    by (simp add: addBlock_def Let_def)
  have ok1: "sessionOk ?s1" "template ?s1 = t"
    using ok0 bt by (simp_all add: added_sessionOk)
  have r1: "runCalls f (newMiniTemplator t) [SetVariable ''x'' v, AddBlock ''row'']
      = Some ([Returned, Returned], ?s1)"
    using set0 add by (simp add: voidResult_def)
  from set_calls_agree [OF t(4) _ cs ok1(2), of f] vt
  obtain rs2 s2 where r2: "runCalls f ?s1 cs = Some (rs2, s2)" and a: "agreeExcept 0 ?s1 s2"
    by auto
  from snapshotExample_generate [OF tt vt rt bt, of ?w]
  obtain m1 where g0: "generateOutputString 12 ?s1 = Some (Inr (''['' @ ?w @ '']''), m1)" by blast
  have g1: "generateOutputString f ?s1 = Some (Inr (''['' @ ?w @ '']''), m1)"
    using t(2,3) ok1 g0 f by (rule generateOutputString_mono)
  have root: "0 \<notin> set (blockVarNoToVarNoMap (blockTab t ! 0))" using bt by simp
  from agree_generateOutputString [OF t(2,3) ok1 a root, of f] g1
  obtain m2 where g2: "generateOutputString f s2 = Some (Inr (''['' @ ?w @ '']''), m2)"
    by (cases "generateOutputString f s2") auto
  have r3: "runCalls f s2 [GenerateOutputString] = Some ([Output (''['' @ ?w @ '']'')], m2)"
    using g2 by simp
  have r23: "runCalls f ?s1 (cs @ [GenerateOutputString])
      = Some (rs2 @ [Output (''['' @ ?w @ '']'')], m2)"
    unfolding runCalls_append r2 by (simp add: r3 del: runCalls.simps)
  have "runCalls f (newMiniTemplator t)
            ([SetVariable ''x'' v, AddBlock ''row''] @ cs @ [GenerateOutputString])
          = Some (([Returned, Returned] @ rs2) @ [Output (''['' @ ?w @ '']'')], m2)"
    unfolding runCalls_append [of f "newMiniTemplator t" "[SetVariable ''x'' v, AddBlock ''row'']"]
      r1 by (simp add: r23 del: runCalls.simps)
  then show ?thesis by blast
qed

lemma new_instance_snapshot:
  assumes "namesInv t" "parentsBelow (blockTab t)" "assocInv t (length (varRefTab t))"
    and "sessionOk s" "template s = t"
    and "addBlock f s name = Some (None, s1)"
    and "k < length (blocksNamed name t)"
  shows "blockNo (blockInstTab s1 ! (length (blockInstTab s) + k))
           = int (rev (blocksNamed name t) ! k)"
    and "blockVarTab (blockInstTab s1 ! (length (blockInstTab s) + k))
           = snapshotOf s (rev (blocksNamed name t) ! k)"
    and "length (blockInstTab s1) = length (blockInstTab s) + length (blocksNamed name t)"
proof -
  let ?bs = "rev (blocksNamed name t)"
  have s1: "s1 = addedAll s ?bs"
    using assms(1,2,4,5,6) by (rule addBlock_returns)
  have A: "map blockVarTab (blockInstTab s1) = map blockVarTab (blockInstTab s) @ map (snapshotOf s) ?bs"
    unfolding s1 by (rule addedAll_map_blockVarTab)
  have B: "map blockNo (blockInstTab s1) = map blockNo (blockInstTab s) @ map int ?bs"
    unfolding s1 using addedAll_blocksNamed_ok(4) [OF assms(4,5)] .
  have len: "length (blockInstTab s1) = length (blockInstTab s) + length ?bs"
    using arg_cong [OF B, of length] by simp
  then show "length (blockInstTab s1) = length (blockInstTab s) + length (blocksNamed name t)"
    by simp
  have i: "length (blockInstTab s) + k < length (blockInstTab s1)" using len assms(7) by simp
  have "blockNo (blockInstTab s1 ! (length (blockInstTab s) + k))
      = map blockNo (blockInstTab s1) ! (length (blockInstTab s) + k)"
    using i by simp
  also have "\<dots> = int (?bs ! k)" unfolding B using assms(7) by (simp add: nth_append)
  finally show "blockNo (blockInstTab s1 ! (length (blockInstTab s) + k)) = int (?bs ! k)" .
  have "blockVarTab (blockInstTab s1 ! (length (blockInstTab s) + k))
      = map blockVarTab (blockInstTab s1) ! (length (blockInstTab s) + k)"
    using i by simp
  also have "\<dots> = snapshotOf s (?bs ! k)" unfolding A using assms(7) by (simp add: nth_append)
  finally show "blockVarTab (blockInstTab s1 ! (length (blockInstTab s) + k)) = snapshotOf s (?bs ! k)" .
qed

lemma writer_emits_snapshot_value:
  assumes "assocInv t (length (varRefTab t))" "template s2 = t"
    and "b < length (blockTab t)"
    and "blockNo bitr = int b" "blockVarTab bitr = snapshotOf s b" "template s = t"
    and "writeChunkStep s2 out bitr btr tPos sb vr = ChunkVariable out' tPos'"
  shows "out' = (if tPos < vrTPosBegin (varRefTab t ! nat vr)
                 then out @ [substring (templateText t) tPos (vrTPosBegin (varRefTab t ! nat vr))]
                 else out)
                @ (if valueGet (varValuesTab s) (int (varNo (varRefTab t ! nat vr))) = [] then []
                   else [valueGet (varValuesTab s) (int (varNo (varRefTab t ! nat vr)))])"
    and "tPos' = vrTPosEnd (varRefTab t ! nat vr)"
    and "vrBlockNo (varRefTab t ! nat vr) = int b"
proof -
  let ?r = "varRefTab t ! nat vr"
  from writeChunkStep_variable [OF assms(7)] assms(2) obtain vals where
    vr: "0 \<le> vr" "nat vr < length (varRefTab t)"
    and rb: "vrBlockNo ?r = blockNo bitr"
    and tp: "tPos' = vrTPosEnd ?r"
    and vals: "blockVarTab bitr = Some vals"
    and out': "out' = (if tPos < vrTPosBegin ?r
                     then out @ [substring (templateText t) tPos (vrTPosBegin ?r)] else out)
                    @ (if valueGet vals (blockVarNo ?r) = [] then []
                       else [valueGet vals (blockVarNo ?r)])"
    by auto
  have mem: "?r \<in> set (varRefTab t)" using vr(2) by simp
  have rb': "vrBlockNo ?r = int b" using rb assms(4) by simp
  from assocInv_refs(2) [OF assms(1,3)] mem rb'
  have slot: "0 \<le> blockVarNo ?r"
    "nat (blockVarNo ?r) < length (blockVarNoToVarNoMap (blockTab t ! b))"
    "blockVarNoToVarNoMap (blockTab t ! b) ! nat (blockVarNo ?r) = varNo ?r"
    by blast+
  have "vals = map (\<lambda>n. valueGet (varValuesTab s) (int n)) (blockVarNoToVarNoMap (blockTab t ! b))"
    using vals assms(5,6) by (auto simp: snapshotOf_def split: if_splits)
  then have "valueGet vals (blockVarNo ?r) = valueGet (varValuesTab s) (int (varNo ?r))"
    using slot by (simp add: valueGet_map)
  then show "out' = (if tPos < vrTPosBegin ?r
                 then out @ [substring (templateText t) tPos (vrTPosBegin ?r)] else out)
                @ (if valueGet (varValuesTab s) (int (varNo ?r)) = [] then []
                   else [valueGet (varValuesTab s) (int (varNo ?r))])"
    using out' by simp
  show "tPos' = vrTPosEnd ?r" by (rule tp)
  show "vrBlockNo ?r = int b" by (rule rb')
qed



















lemma startsWith_Nil [simp]: "startsWith [] pat \<longleftrightarrow> pat = []"
  by (cases pat) simp_all


lemma firstIndex_None:
  "firstIndex pat s = None \<longleftrightarrow> (\<forall>k \<le> length s. \<not> startsWith (drop k s) pat)"
proof (induction s)
  case Nil
  show ?case by simp
next
  case (Cons c cs)
  have "(\<forall>k \<le> length (c # cs). \<not> startsWith (drop k (c # cs)) pat)
      \<longleftrightarrow> \<not> startsWith (c # cs) pat \<and> (\<forall>k \<le> length cs. \<not> startsWith (drop k cs) pat)"
  proof
    assume a: "\<forall>k \<le> length (c # cs). \<not> startsWith (drop k (c # cs)) pat"
    have "\<not> startsWith (c # cs) pat" using a [rule_format, of 0] by simp
    moreover have "\<not> startsWith (drop k cs) pat" if "k \<le> length cs" for k
      using a [rule_format, of "Suc k"] that by simp
    ultimately show "\<not> startsWith (c # cs) pat \<and> (\<forall>k \<le> length cs. \<not> startsWith (drop k cs) pat)"
      by simp
  next
    assume a: "\<not> startsWith (c # cs) pat \<and> (\<forall>k \<le> length cs. \<not> startsWith (drop k cs) pat)"
    show "\<forall>k \<le> length (c # cs). \<not> startsWith (drop k (c # cs)) pat"
    proof (intro allI impI)
      fix k assume "k \<le> length (c # cs)"
      then show "\<not> startsWith (drop k (c # cs)) pat" using a by (cases k) simp_all
    qed
  qed
  then show ?case using Cons by simp
qed


lemma indexOf_none_from:
  assumes "indexOf s pat 0 = - 1"
  shows "indexOf s pat q = - 1"
proof -
  have n: "\<forall>k \<le> length s. \<not> startsWith (drop k s) pat"
    using assms by (auto simp: indexOf_def firstIndex_None [symmetric] split: option.splits)
  have "firstIndex pat (drop (min q (length s)) s) = None"
    unfolding firstIndex_None
  proof (intro allI impI)
    fix k assume "k \<le> length (drop (min q (length s)) s)"
    then have "min q (length s) + k \<le> length s" by simp
    with n have "\<not> startsWith (drop (min q (length s) + k) s) pat" by blast
    then show "\<not> startsWith (drop k (drop (min q (length s)) s)) pat" by (simp add: add.commute)
  qed
  then show ?thesis by (simp add: indexOf_def)
qed

lemma startsWith_take: "startsWith (take n s) pat \<Longrightarrow> startsWith s pat"
proof (induction s pat arbitrary: n rule: startsWith.induct)
  case (1 s)
  show ?case by simp
next
  case (2 c cs)
  then show ?case by simp
next
  case (3 x xs c cs)
  then show ?case by (cases n) auto
qed

lemma indexOf_none_substring:
  assumes "indexOf s pat 0 = - 1"
  shows "indexOf (substring s a b) pat 0 = - 1"
proof -
  have n: "\<forall>k \<le> length s. \<not> startsWith (drop k s) pat"
    using assms by (auto simp: indexOf_def firstIndex_None [symmetric] split: option.splits)
  have "firstIndex pat (take m (drop j s)) = None" for m j
    unfolding firstIndex_None
  proof (intro allI impI notI)
    fix k assume k: "k \<le> length (take m (drop j s))"
      and sw: "startsWith (drop k (take m (drop j s))) pat"
    have "drop k (take m (drop j s)) = take (m - k) (drop (j + k) s)"
      by (simp add: drop_take add.commute)
    with sw have "startsWith (drop (j + k) s) pat" using startsWith_take by metis
    moreover have "j + k \<le> length s \<or> drop (j + k) s = []" by auto
    ultimately show False
      using n assms by (auto simp: indexOf_def split: option.splits if_splits)
  qed
  then show ?thesis by (simp add: indexOf_def substring_def Let_def)
qed










text \<open>
  Claim C9 says that, for every compiled template and every sequence of calls of the public
  methods, no assertion of the writer fails and \<open>generateOutputString\<close> never throws. The
  template below is accepted by the parser; its placeholder \<open>${v ... }\<close> runs over the
  \<open>$beginBlock b\<close> command, so that when the root instance is written the first block that
  starts behind the placeholder is \<open>c\<close>, whose parent is \<open>b\<close> and not the root. A single
  call of \<open>generateOutputString\<close> on the fresh session fails the assertion
  \<open>subBtr.parentBlockNo == blockNo\<close> of \<open>writeBlockInstance\<close>.
\<close>

theorem generateOutput_assertion_fails:
  "map_option (map_sum id fst)
     (runProgram (plainParms ''${v <!-- $beginBlock b --> } <!-- $beginBlock c -->Z<!-- $endBlock c --><!-- $endBlock b -->'')
        20 [GenerateOutputString])
   = Some (Inr [Threw assertionFailed])"
  by code_simp

text \<open>
  Claim C8 asks that two sets of condition variables which differ in the variable that is
  set, such as \<open>{a: true}\<close> and \<open>{b: true}\<close>, get different cache keys.
  \<open>genConditionVarsCacheKey\<close> pushes the value of a boolean entry, and value and encoded
  value of any other entry, but never the name. For every template name \<open>t\<close> and all
  variable names \<open>a\<close> and \<open>b\<close> the two keys are the same string, \<open>t|true\<close>.
\<close>

theorem cacheKey_ignores_names:
  "cacheKey t (Some [(a, CBool True)]) = Inr (t @ ''|true'')
   \<and> cacheKey t (Some [(b, CBool True)]) = Inr (t @ ''|true'')"
  by (simp add: cacheKey_def genConditionVarsCacheKey_def)

text \<open>
  Claim C1, the order as the claim states it: two definitions of the block \<open>a\<close> are
  blocks 1 and 2 of the parsed template, in the order of the text, and one call of
  \<open>addBlock\<close> creates the instance of block 2 first and the instance of block 1 second.
\<close>

theorem addBlock_definition_order_counterexample:
  "map_option (map_sum id (map blockNo \<circ> blockInstTab \<circ> snd))
     (runProgram (plainParms ''<!-- $beginBlock a -->X<!-- $endBlock a --><!-- $beginBlock a -->Y<!-- $endBlock a -->'')
        20 [AddBlock ''a''])
   = Some (Inr [2, 1])
   \<and> map_option (map_sum id (blocksNamed ''a'' \<circ> template \<circ> snd))
     (runProgram (plainParms ''<!-- $beginBlock a -->X<!-- $endBlock a --><!-- $beginBlock a -->Y<!-- $endBlock a -->'')
        20 [AddBlock ''a''])
   = Some (Inr [1, 2])"
  by code_simp

text \<open>
  Claim C1, with the order the code has: for every parsed template of at most 32768 blocks
  and every session reachable through the public methods, \<open>addBlock n\<close> throws
  \<open>BlockNotDefinedError\<close> and changes nothing when no block definition is named \<open>n\<close>;
  otherwise it returns, and it has appended exactly one instance for each definition named
  \<open>n\<close>, the last definition of the text first and the first one last.
\<close>

theorem addBlock_one_instance_per_definition:
  assumes "parseTemplate pp fuel = Some (Inr t)" and "length (blockTab t) \<le> 32768"
    and "reachable t s"
  shows "(blocksNamed n t = [] \<longrightarrow> addBlock f s n = Some (Some (blockNotDefinedError n), s))
     \<and> (blocksNamed n t \<noteq> [] \<and> length (blocksNamed n t) < f \<longrightarrow>
          (\<exists>s'. addBlock f s n = Some (None, s')
             \<and> map blockNo (blockInstTab s')
                 = map blockNo (blockInstTab s) @ map int (rev (blocksNamed n t))))"
proof -
  have ok: "templateOk t" using assms(1) by (rule parseTemplate_templateOk)
  then have t: "namesInv t" "parentsOk (blockTab t)" "parentsBelow (blockTab t)"
    using assms(2) by (simp_all add: templateOk_def)
  note s = reachable_parsed [OF assms(1,3)]
  have none: "lookupBlockName t n = - 1 \<longleftrightarrow> blocksNamed n t = []"
    using t(1) by (rule lookupBlockName_none)
  show ?thesis
    using none s(2) addBlocksByNo_lookup [OF t s, of f n] addedAll_blocksNamed_ok(4) [OF s, of n]
    by (auto simp: addBlock_def Let_def)
qed

theorem addBlock_one_instance_per_definition_witness:
  "\<exists>t. parseTemplate (plainParms ''<!-- $beginBlock a -->X<!-- $endBlock a --><!-- $beginBlock a -->Y<!-- $endBlock a -->'') 20
          = Some (Inr t)
       \<and> length (blockTab t) \<le> 32768
       \<and> reachable t (newMiniTemplator t)
       \<and> blocksNamed ''a'' t = [1, 2]
       \<and> (\<exists>s'. addBlock 3 (newMiniTemplator t) ''a'' = Some (None, s')
             \<and> map blockNo (blockInstTab s') = [2, 1])
       \<and> addBlock 3 (newMiniTemplator t) ''z'' = Some (Some (blockNotDefinedError ''z''), newMiniTemplator t)"
proof -
  let ?pp = "plainParms ''<!-- $beginBlock a -->X<!-- $endBlock a --><!-- $beginBlock a -->Y<!-- $endBlock a -->''"
  have "case parseTemplate ?pp 20 of
          Some (Inr t) \<Rightarrow> length (blockTab t) = 3 \<and> blocksNamed ''a'' t = [1, 2] \<and> blocksNamed ''z'' t = []
        | _ \<Rightarrow> False"
    by code_simp
  then obtain t where t: "parseTemplate ?pp 20 = Some (Inr t)" "length (blockTab t) = 3"
    "blocksNamed ''a'' t = [1, 2]" "blocksNamed ''z'' t = []"
    by (auto split: option.splits sum.splits)
  have le: "length (blockTab t) \<le> 32768" using t(2) by simp
  have new: "blockInstTab (newMiniTemplator t) = []" by (simp add: newMiniTemplator_def)
  from addBlock_one_instance_per_definition [OF t(1) le reachNew, of "''a''" 3]
    addBlock_one_instance_per_definition [OF t(1) le reachNew, of "''z''" 3]
  show ?thesis
    using t le reachNew [of t] by (auto simp: new)
qed

text \<open>
  Claim C5. For every parsed template and every session object over it: \<open>setVariable\<close>
  with a name that is not a variable of the template throws \<open>VariableNotDefinedError\<close>,
  \<open>addBlock\<close> with a name that no block definition has throws \<open>BlockNotDefinedError\<close>, and
  \<open>setVariableOpt\<close> and \<open>addBlockOpt\<close> with such a name return normally; each of these
  calls leaves the session object exactly as it was.
\<close>

theorem unknown_name_leaves_session_unchanged:
  assumes "parseTemplate pp fuel = Some (Inr t)" and "template s = t"
  shows "(varName \<notin> set (varTab t) \<longrightarrow>
            setVariable s varName v = (Some (variableNotDefinedError varName), s)
            \<and> setVariableOpt s varName v = (None, s))
       \<and> (blocksNamed name t = [] \<longrightarrow>
            addBlock f s name = Some (Some (blockNotDefinedError name), s)
            \<and> addBlockOpt (Suc f) s name = Some (None, s))"
proof -
  have ok: "templateOk t" using assms(1) by (rule parseTemplate_templateOk)
  then have "varsInv t" "namesInv t" by (simp_all add: templateOk_def)
  then have "lookupVariableName t varName = - 1 \<longleftrightarrow> varName \<notin> set (varTab t)"
    "lookupBlockName t name = - 1 \<longleftrightarrow> blocksNamed name t = []"
    by (simp_all add: lookupVariableName_varsInv lookupBlockName_none)
  then show ?thesis
    using assms(2)
    by (auto simp: setVariable_def setVariableOpt_def addBlock_def addBlockOpt_def Let_def)
qed

theorem unknown_name_leaves_session_unchanged_witness:
  "\<exists>t. parseTemplate (plainParms ''<!-- $beginBlock row -->${x}<!-- $endBlock row -->'') 20 = Some (Inr t)
       \<and> ''y'' \<notin> set (varTab t) \<and> blocksNamed ''cell'' t = []
       \<and> setVariable (newMiniTemplator t) ''y'' (JString ''1'')
            = (Some (variableNotDefinedError ''y''), newMiniTemplator t)
       \<and> setVariableOpt (newMiniTemplator t) ''y'' (JString ''1'') = (None, newMiniTemplator t)
       \<and> addBlock 1 (newMiniTemplator t) ''cell''
            = Some (Some (blockNotDefinedError ''cell''), newMiniTemplator t)
       \<and> addBlockOpt 1 (newMiniTemplator t) ''cell'' = Some (None, newMiniTemplator t)"
proof -
  let ?pp = "plainParms ''<!-- $beginBlock row -->${x}<!-- $endBlock row -->''"
  have "case parseTemplate ?pp 20 of
          Some (Inr t) \<Rightarrow> ''y'' \<notin> set (varTab t) \<and> blocksNamed ''cell'' t = []
        | _ \<Rightarrow> False"
    by code_simp
  then obtain t where t: "parseTemplate ?pp 20 = Some (Inr t)" "''y'' \<notin> set (varTab t)"
    "blocksNamed ''cell'' t = []"
    by (auto split: option.splits sum.splits)
  from unknown_name_leaves_session_unchanged [OF t(1) template_new, of "''y''" "JString ''1''" "''cell''" 0]
    unknown_name_leaves_session_unchanged [OF t(1) template_new, of "''y''" "JString ''1''" "''cell''" 1]
  show ?thesis using t by auto
qed

text \<open>
  Claim C3. For every parsed template, every session reachable through the public methods
  and every \<open>addBlock\<close> call that returns: the call appends one instance for each definition
  of the name, and the instance of definition \<open>b\<close> stores a copy of the current values of
  the variables local to \<open>b\<close>, one slot for each variable reference that belongs to \<open>b\<close>
  (\<open>snapshotOf\<close>); the snapshots of the instances created earlier stay as they are. Later
  \<open>setVariable\<close> and \<open>setVariableOpt\<close> calls change no instance, and writing an instance
  produces the same output after them as before. Whenever the writer, at work on one of the
  new instances after those calls, comes to a variable reference, the reference belongs to
  the block of the instance, and what the writer appends to the output is the text before
  the reference followed by the value that the variable had when \<open>addBlock\<close> was called
  (nothing for an empty value). In the example \<open>[${x}]\<close> inside a block \<open>row\<close>: after
  \<open>setVariable x v\<close> and \<open>addBlock row\<close>, whatever values the calls \<open>cs\<close> set afterwards,
  \<open>generateOutputString\<close> returns, with twelve units of fuel or more, \<open>[v]\<close>.
\<close>

theorem snapshot_taken_at_creation:
  assumes "parseTemplate pp fuel = Some (Inr t)"
    and "reachable t s"
    and "addBlock f s name = Some (None, s1)"
    and "\<forall>c \<in> set cs. isSetVariable c" and "runCalls g s1 cs = Some (rs, s2)"
  shows "map blockVarTab (blockInstTab s1)
           = map blockVarTab (blockInstTab s) @ map (snapshotOf s) (rev (blocksNamed name t))
       \<and> (\<forall>b \<in> set (blocksNamed name t).
            (\<forall>n \<in> set (blockVarNoToVarNoMap (blockTab t ! b)).
               \<exists>r \<in> set (varRefTab t). varNo r = n \<and> vrBlockNo r = int b)
            \<and> (\<forall>r \<in> set (varRefTab t). vrBlockNo r = int b \<longrightarrow>
                  0 \<le> blockVarNo r
                  \<and> nat (blockVarNo r) < length (blockVarNoToVarNoMap (blockTab t ! b))
                  \<and> blockVarNoToVarNoMap (blockTab t ! b) ! nat (blockVarNo r) = varNo r))
       \<and> blockInstTab s2 = blockInstTab s1
       \<and> written (writeBlockInstance h s2 out i) = written (writeBlockInstance h s1 out i)
       \<and> (k < length (blocksNamed name t)
            \<and> writeChunkStep s2 ot (blockInstTab s2 ! (length (blockInstTab s) + k)) btr tPos sb vr
                = ChunkVariable ot' tPos'
          \<longrightarrow> vrBlockNo (varRefTab t ! nat vr) = int (rev (blocksNamed name t) ! k)
              \<and> tPos' = vrTPosEnd (varRefTab t ! nat vr)
              \<and> ot' = (if tPos < vrTPosBegin (varRefTab t ! nat vr)
                        then ot @ [substring (templateText t) tPos
                                     (vrTPosBegin (varRefTab t ! nat vr))]
                        else ot)
                       @ (if valueGet (varValuesTab s) (int (varNo (varRefTab t ! nat vr))) = []
                          then []
                          else [valueGet (varValuesTab s) (int (varNo (varRefTab t ! nat vr)))]))
       \<and> (parseTemplate snapshotExample 20 = Some (Inr te) \<and> 12 \<le> ge
          \<longrightarrow> (\<exists>rs' m. runCalls ge (newMiniTemplator te)
                          ([SetVariable ''x'' v, AddBlock ''row''] @ cs @ [GenerateOutputString])
                        = Some (rs' @ [Output (''['' @ formatVariableValue v @ '']'')], m)))"
proof -
  have ok: "templateOk t" using assms(1) by (rule parseTemplate_templateOk)
  then have t: "namesInv t" "parentsBelow (blockTab t)" and a: "assocInv t (length (varRefTab t))"
    by (simp_all add: templateOk_def)
  note s = reachable_parsed [OF assms(1,2)]
  have s1: "s1 = addedAll s (rev (blocksNamed name t))"
    using t s assms(3) by (rule addBlock_returns)
  have A: "map blockVarTab (blockInstTab s1)
           = map blockVarTab (blockInstTab s) @ map (snapshotOf s) (rev (blocksNamed name t))"
    unfolding s1 by (rule addedAll_map_blockVarTab)
  have B: "(\<forall>n \<in> set (blockVarNoToVarNoMap (blockTab t ! b)).
               \<exists>r \<in> set (varRefTab t). varNo r = n \<and> vrBlockNo r = int b)
            \<and> (\<forall>r \<in> set (varRefTab t). vrBlockNo r = int b \<longrightarrow>
                  0 \<le> blockVarNo r
                  \<and> nat (blockVarNo r) < length (blockVarNoToVarNoMap (blockTab t ! b))
                  \<and> blockVarNoToVarNoMap (blockTab t ! b) ! nat (blockVarNo r) = varNo r)"
    if "b \<in> set (blocksNamed name t)" for b
  proof -
    from that have "b < length (blockTab t)" by (simp add: blocksNamed_def)
    from assocInv_refs [OF a this] show ?thesis by blast
  qed
  have R: "sameButValues s1 s2" using assms(4,5) by (rule runCalls_set_sameButValues)
  then have C: "blockInstTab s2 = blockInstTab s1" by (simp add: sameButValues_def)
  have t2: "template s2 = t"
    using R addedAll_blocksNamed_ok(2) [OF s] unfolding s1 by (simp add: sameButValues_def)
  have D: "written (writeBlockInstance h s2 out i) = written (writeBlockInstance h s1 out i)"
    using R by (rule writeBlockInstance_values)
  have E: "vrBlockNo (varRefTab t ! nat vr) = int (rev (blocksNamed name t) ! k)
              \<and> tPos' = vrTPosEnd (varRefTab t ! nat vr)
              \<and> ot' = (if tPos < vrTPosBegin (varRefTab t ! nat vr)
                        then ot @ [substring (templateText t) tPos
                                     (vrTPosBegin (varRefTab t ! nat vr))]
                        else ot)
                       @ (if valueGet (varValuesTab s) (int (varNo (varRefTab t ! nat vr))) = []
                          then []
                          else [valueGet (varValuesTab s) (int (varNo (varRefTab t ! nat vr)))])"
    if k: "k < length (blocksNamed name t)"
      and w: "writeChunkStep s2 ot (blockInstTab s2 ! (length (blockInstTab s) + k)) btr tPos sb vr
                = ChunkVariable ot' tPos'"
  proof -
    let ?b = "rev (blocksNamed name t) ! k"
    let ?bitr = "blockInstTab s2 ! (length (blockInstTab s) + k)"
    note ni = new_instance_snapshot [OF t a s assms(3) k]
    have "?b \<in> set (blocksNamed name t)" using k by (metis length_rev nth_mem set_rev)
    then have b: "?b < length (blockTab t)" by (simp add: blocksNamed_def)
    have bn: "blockNo ?bitr = int ?b" "blockVarTab ?bitr = snapshotOf s ?b"
      unfolding C using ni by simp_all
    from writer_emits_snapshot_value [OF a t2 b bn s(2) w] show ?thesis by simp
  qed
  have F: "\<exists>rs' m. runCalls ge (newMiniTemplator te)
                          ([SetVariable ''x'' v, AddBlock ''row''] @ cs @ [GenerateOutputString])
                        = Some (rs' @ [Output (''['' @ formatVariableValue v @ '']'')], m)"
    if "parseTemplate snapshotExample 20 = Some (Inr te)" "12 \<le> ge"
    using that(1) assms(4) that(2) by (rule snapshotExample_output)
  show ?thesis using A B C D E F by blast
qed

theorem snapshot_taken_at_creation_witness:
  "\<exists>t s s1 rs s2 rs' m.
      parseTemplate snapshotExample 20 = Some (Inr t)
    \<and> reachable t s
    \<and> addBlock 2 s ''row'' = Some (None, s1)
    \<and> isSetVariable (SetVariable ''x'' (JString ''later''))
    \<and> runCalls 2 s1 [SetVariable ''x'' (JString ''later'')] = Some (rs, s2)
    \<and> map blockVarTab (blockInstTab s1) = [Some [''first'']]
    \<and> blockInstTab s2 = blockInstTab s1
    \<and> varValuesTab s2 = [''later'']
    \<and> written (writeBlockInstance 9 s2 [] 0) = written (writeBlockInstance 9 s1 [] 0)
    \<and> writeChunkStep s2 [] (blockInstTab s2 ! 0) (blockTab t ! 1) 24 2 0
         = ChunkVariable [''['', ''first''] 29
    \<and> valueGet (varValuesTab s) (int (varNo (varRefTab t ! 0))) = ''first''
    \<and> runCalls 12 (newMiniTemplator t)
         ([SetVariable ''x'' (JString ''first''), AddBlock ''row'']
          @ [SetVariable ''x'' (JString ''later'')] @ [GenerateOutputString])
       = Some (rs' @ [Output ''[first]''], m)"
proof -
  let ?pp = "snapshotExample"
  have "case parseTemplate ?pp 20 of
          Some (Inr t) \<Rightarrow>
            length (blockTab t) = 2 \<and> blocksNamed ''row'' t = [1]
            \<and> blockInstTab (newMiniTemplator t) = []
            \<and> snapshotOf (snd (setVariable (newMiniTemplator t) ''x'' (JString ''first''))) 1
                = Some [''first'']
            \<and> valueGet (varValuesTab (snd (setVariable (newMiniTemplator t) ''x'' (JString ''first''))))
                 (int (varNo (varRefTab t ! 0))) = ''first''
            \<and> (case addBlock 2 (snd (setVariable (newMiniTemplator t) ''x'' (JString ''first''))) ''row'' of
                 Some (None, s1) \<Rightarrow>
                   writeChunkStep (snd (setVariable s1 ''x'' (JString ''later''))) []
                     (blockInstTab (snd (setVariable s1 ''x'' (JString ''later''))) ! 0)
                     (blockTab t ! 1) 24 2 0
                   = ChunkVariable [''['', ''first''] 29
                   \<and> varValuesTab (snd (setVariable s1 ''x'' (JString ''later''))) = [''later'']
               | _ \<Rightarrow> False)
        | _ \<Rightarrow> False"
    by code_simp
  then obtain t s1 where t: "parseTemplate ?pp 20 = Some (Inr t)" "length (blockTab t) = 2"
    "blocksNamed ''row'' t = [1]" "blockInstTab (newMiniTemplator t) = []"
    "snapshotOf (snd (setVariable (newMiniTemplator t) ''x'' (JString ''first''))) 1 = Some [''first'']"
    "valueGet (varValuesTab (snd (setVariable (newMiniTemplator t) ''x'' (JString ''first''))))
                 (int (varNo (varRefTab t ! 0))) = ''first''"
    and s1: "addBlock 2 (snd (setVariable (newMiniTemplator t) ''x'' (JString ''first''))) ''row'' = Some (None, s1)"
    and w: "writeChunkStep (snd (setVariable s1 ''x'' (JString ''later''))) []
                     (blockInstTab (snd (setVariable s1 ''x'' (JString ''later''))) ! 0)
                     (blockTab t ! 1) 24 2 0
                   = ChunkVariable [''['', ''first''] 29"
    and v2: "varValuesTab (snd (setVariable s1 ''x'' (JString ''later''))) = [''later'']"
    by (auto split: option.splits sum.splits prod.splits)
  let ?s = "snd (setVariable (newMiniTemplator t) ''x'' (JString ''first''))"
  let ?rs = "[voidResult (fst (setVariable s1 ''x'' (JString ''later'')))]"
  let ?s2 = "snd (setVariable s1 ''x'' (JString ''later''))"
  let ?cs = "[SetVariable ''x'' (JString ''later'')]"
  have s2: "runCalls 2 s1 ?cs = Some (?rs, ?s2)"
    by (cases "setVariable s1 ''x'' (JString ''later'')") simp
  have r: "reachable t ?s" by (intro reachSetVariable reachNew)
  have set: "\<forall>c \<in> set ?cs. isSetVariable c" by simp
  have isv: "isSetVariable (SetVariable ''x'' (JString ''later''))" by simp
  have inst: "blockInstTab ?s = []" using t(4) by (simp add: setVariable_sameSession_parts)
  have w0: "writeChunkStep ?s2 [] (blockInstTab ?s2 ! (length (blockInstTab ?s) + 0))
      (blockTab t ! 1) 24 2 0 = ChunkVariable [''['', ''first''] 29"
    using w inst by simp
  note th = snapshot_taken_at_creation [OF t(1) r s1 set s2,
      where h = 9 and out = "[]" and i = 0 and k = 0 and ot = "[]" and btr = "blockTab t ! 1"
        and tPos = 24 and sb = 2 and vr = 0 and ot' = "[''['', ''first'']" and tPos' = 29
        and te = t and ge = 12 and v = "JString ''first''"]
  from th have concl: "map blockVarTab (blockInstTab s1) = [Some [''first'']]"
    "blockInstTab ?s2 = blockInstTab s1"
    "written (writeBlockInstance 9 ?s2 [] 0) = written (writeBlockInstance 9 s1 [] 0)"
    using t(3,5) inst by simp_all
  from th t(1) obtain rs' m where run: "runCalls 12 (newMiniTemplator t)
         ([SetVariable ''x'' (JString ''first''), AddBlock ''row''] @ ?cs @ [GenerateOutputString])
       = Some (rs' @ [Output ''[first]''], m)"
    by auto
  show ?thesis
    by (intro exI [of _ t] exI [of _ ?s] exI [of _ s1] exI [of _ ?rs] exI [of _ ?s2]
        exI [of _ rs'] exI [of _ m] conjI)
      (fact t(1) r s1 isv s2 concl v2 w t(6) run)+
qed




text \<open>
  Claim C10. The variable references of a parsed template are exactly the placeholders of
  its text, in the order of the text, whether or not a placeholder lies in an excluded
  range: \<open>references t = placeholders (templateText t)\<close>. So for every placeholder \<open>${x}\<close> of
  the text, \<open>x\<close> is in the variable table, \<open>variableExists\<close> is true for it and \<open>setVariable\<close>
  accepts it in every session over the template. When every reference to \<open>x\<close> belongs to a
  dummy block (the placeholders of \<open>x\<close> lie in excluded ranges only), the values given to \<open>x\<close>
  have no effect on any result: two programs of calls that differ only in the values they
  set \<open>x\<close> to get, call by call, the same results, among them the same output strings.
\<close>

theorem variable_of_excluded_placeholder_registered:
  assumes "parseTemplate pp fuel = Some (Inr t)"
    and "(x, b, e) \<in> set (placeholders (templateText t))"
    and "template s = t"
  shows "references t = placeholders (templateText t)
       \<and> x \<in> set (varTab t) \<and> variableExists s x \<and> fst (setVariable s x v) = None
       \<and> ((\<forall>r \<in> set (varRefTab t). varTab t ! varNo r = x
               \<longrightarrow> dummy (blockTab t ! nat (vrBlockNo r)))
            \<and> list_all2 (sameCall x) cs cs'
          \<longrightarrow> map_option fst (runCalls f (newMiniTemplator t) cs)
               = map_option fst (runCalls f (newMiniTemplator t) cs'))"
proof -
  have ok: "templateOk t" using assms(1) by (rule parseTemplate_templateOk)
  then have t: "namesInv t" "rootInv t" "parentsBelow (blockTab t)"
    and vi: "varsInv t" and a: "assocInv t (length (varRefTab t))"
    by (simp_all add: templateOk_def)
  have link: "references t = placeholders (templateText t)"
    using assms(1) by (rule parseTemplate_references)
  with assms(2) have "(x, b, e) \<in> set (references t)" by simp
  then obtain r where r: "r \<in> set (varRefTab t)" "varTab t ! varNo r = x"
    by (auto simp: references_def)
  have rn: "varNo r < length (varTab t)" using vi r(1) by (simp add: varsInv_def)
  then have mem: "x \<in> set (varTab t)" using r(2) by (metis nth_mem)
  then have "varNameToNoMap t x \<noteq> None" using vi unfolding varsInv_def by blast
  then obtain n where n: "varNameToNoMap t x = Some n" by blast
  then have nx: "n < length (varTab t)" "varTab t ! n = x" using vi unfolding varsInv_def by blast+
  have lk: "lookupVariableName t x = int n" using n by (simp add: lookupVariableName_def)
  have ex: "variableExists s x" using lk assms(3) by (simp add: variableExists_def)
  have sv: "fst (setVariable s x v) = None" using lk assms(3) by (simp add: setVariable_def Let_def)
  have ni: "map_option fst (runCalls f (newMiniTemplator t) cs)
           = map_option fst (runCalls f (newMiniTemplator t) cs')"
    if d: "\<forall>r \<in> set (varRefTab t). varTab t ! varNo r = x
               \<longrightarrow> dummy (blockTab t ! nat (vrBlockNo r))"
      and l: "list_all2 (sameCall x) cs cs'"
  proof -
    have nd: "\<forall>b < length (blockTab t). \<not> dummy (blockTab t ! b)
               \<longrightarrow> n \<notin> set (blockVarNoToVarNoMap (blockTab t ! b))"
    proof (intro allI impI notI)
      fix b assume b: "b < length (blockTab t)" and nb: "\<not> dummy (blockTab t ! b)"
        and "n \<in> set (blockVarNoToVarNoMap (blockTab t ! b))"
      with assocInv_refs(1) [OF a b] obtain r' where r': "r' \<in> set (varRefTab t)" "varNo r' = n"
        "vrBlockNo r' = int b" by blast
      have "varTab t ! varNo r' = x" using r'(2) nx(2) by simp
      with d r'(1) have "dummy (blockTab t ! nat (vrBlockNo r'))" by blast
      then show False using nb r'(3) by simp
    qed
    have "relCall n (runCalls f (newMiniTemplator t) cs) (runCalls f (newMiniTemplator t) cs')"
      using t nd lk l by (rule agree_runCalls) (simp_all add: sessionOk_new)
    then show ?thesis
      by (cases "runCalls f (newMiniTemplator t) cs"; cases "runCalls f (newMiniTemplator t) cs'")
        auto
  qed
  show ?thesis using link mem ex sv ni by blast
qed

theorem variable_of_excluded_placeholder_registered_witness:
  "\<exists>t. parseTemplate (condParms [(''a'', False)] ''<!-- $if a -->${y}${x}<!-- $endIf -->Y'') 20
          = Some (Inr t)
     \<and> templateText t = ''<!-- $if a -->${y}${x}<!-- $endIf -->Y''
     \<and> placeholders (templateText t) = [(''y'', 14, 18), (''x'', 18, 22)]
     \<and> references t = [(''y'', 14, 18), (''x'', 18, 22)]
     \<and> dummy (blockTab t ! nat (vrBlockNo (varRefTab t ! 0)))
     \<and> dummy (blockTab t ! nat (vrBlockNo (varRefTab t ! 1)))
     \<and> template (newMiniTemplator t) = t
     \<and> list_all2 (sameCall ''x'') [SetVariable ''x'' (JString ''1''), GenerateOutputString]
          [SetVariable ''x'' (JString ''2''), GenerateOutputString]
     \<and> ''x'' \<in> set (varTab t) \<and> variableExists (newMiniTemplator t) ''x''
     \<and> fst (setVariable (newMiniTemplator t) ''x'' (JString ''1'')) = None
     \<and> map_option fst (runCalls 20 (newMiniTemplator t)
          [SetVariable ''x'' (JString ''1''), GenerateOutputString]) = Some [Returned, Output ''Y'']
     \<and> map_option fst (runCalls 20 (newMiniTemplator t)
          [SetVariable ''x'' (JString ''2''), GenerateOutputString]) = Some [Returned, Output ''Y'']"
proof -
  let ?txt = "''<!-- $if a -->${y}${x}<!-- $endIf -->Y''"
  let ?pp = "condParms [(''a'', False)] ?txt"
  let ?cs = "[SetVariable ''x'' (JString ''1''), GenerateOutputString]"
  let ?cs' = "[SetVariable ''x'' (JString ''2''), GenerateOutputString]"
  have "case parseTemplate ?pp 20 of
          Some (Inr t) \<Rightarrow>
            templateText t = ?txt
            \<and> length (varRefTab t) = 2
            \<and> varTab t ! varNo (varRefTab t ! 1) = ''x''
            \<and> varTab t ! varNo (varRefTab t ! 0) \<noteq> ''x''
            \<and> dummy (blockTab t ! nat (vrBlockNo (varRefTab t ! 0)))
            \<and> dummy (blockTab t ! nat (vrBlockNo (varRefTab t ! 1)))
            \<and> map_option fst (runCalls 20 (newMiniTemplator t) ?cs) = Some [Returned, Output ''Y'']
        | _ \<Rightarrow> False"
    by code_simp
  then obtain t where t: "parseTemplate ?pp 20 = Some (Inr t)"
    "templateText t = ?txt"
    "length (varRefTab t) = 2"
    "varTab t ! varNo (varRefTab t ! 1) = ''x''"
    "varTab t ! varNo (varRefTab t ! 0) \<noteq> ''x''"
    "dummy (blockTab t ! nat (vrBlockNo (varRefTab t ! 0)))"
    "dummy (blockTab t ! nat (vrBlockNo (varRefTab t ! 1)))"
    "map_option fst (runCalls 20 (newMiniTemplator t) ?cs) = Some [Returned, Output ''Y'']"
    by (auto split: option.splits sum.splits)
  have ph: "placeholders ?txt = [(''y'', 14, 18), (''x'', 18, 22)]"
    unfolding placeholders_def by code_simp
  from t(3) obtain r0 r1 where rs: "varRefTab t = [r0, r1]"
    by (cases "varRefTab t"; cases "tl (varRefTab t)") auto
  have h3: "\<forall>r \<in> set (varRefTab t). varTab t ! varNo r = ''x''
               \<longrightarrow> dummy (blockTab t ! nat (vrBlockNo r))"
    using t(6,7) rs by simp
  have h2: "(''x'', 18, 22) \<in> set (placeholders (templateText t))" using ph t(2) by simp
  have l: "list_all2 (sameCall ''x'') ?cs ?cs'" by simp
  from variable_of_excluded_placeholder_registered
    [OF t(1) h2 template_new, of "JString ''1''" ?cs ?cs' 20] h3 l
  have c: "references t = placeholders (templateText t)"
    "''x'' \<in> set (varTab t)" "variableExists (newMiniTemplator t) ''x''"
    "fst (setVariable (newMiniTemplator t) ''x'' (JString ''1'')) = None"
    "map_option fst (runCalls 20 (newMiniTemplator t) ?cs)
           = map_option fst (runCalls 20 (newMiniTemplator t) ?cs')"
    by blast+
  have r2: "map_option fst (runCalls 20 (newMiniTemplator t) ?cs') = Some [Returned, Output ''Y'']"
    unfolding c(5) [symmetric] by (rule t(8))
  have pht: "placeholders (templateText t) = [(''y'', 14, 18), (''x'', 18, 22)]"
    unfolding t(2) by (rule ph)
  have rf: "references t = [(''y'', 14, 18), (''x'', 18, 22)]"
    unfolding c(1) by (rule pht)
  show ?thesis
    by (intro exI [of _ t] conjI)
      (fact t(1) t(2) pht rf t(6) t(7) template_new l c(2) c(3) c(4) t(8) r2)+
qed



end
